theory Spec2Isabelle
  imports Main
begin

section \<open>ShutdownBlocker\<close>

text \<open>
  The two Win32 entry points the blocker calls. Their BOOL results are ignored by the
  source, so only the fact that a call was made is recorded.
\<close>

datatype os_call = ShutdownBlockReasonCreate | ShutdownBlockReasonDestroy

text \<open>
  \<^verbatim>\<open>class ShutdownBlocker\<close>: \<open>counter\<close> is the Python attribute; \<open>os_calls\<close> lists the
  Win32 calls issued so far, most recent first. \<open>hWnd\<close> and \<open>sReason\<close> are constants of the
  object and are left out.
\<close>

record ShutdownBlocker =
  counter :: int
  os_calls :: "os_call list"

definition ShutdownBlocker_init :: ShutdownBlocker where
  "ShutdownBlocker_init = \<lparr>counter = 0, os_calls = []\<rparr>"

definition enable :: "ShutdownBlocker \<Rightarrow> ShutdownBlocker" where
  "enable b =
     (let b1 = (if counter b = 0
                then b\<lparr>os_calls := ShutdownBlockReasonCreate # os_calls b\<rparr> else b)
      in b1\<lparr>counter := counter b1 + 1\<rparr>)"

definition disable :: "ShutdownBlocker \<Rightarrow> ShutdownBlocker" where
  "disable b =
     (let b1 = (if counter b = 1
                then b\<lparr>os_calls := ShutdownBlockReasonDestroy # os_calls b\<rparr> else b)
      in if counter b1 > 0 then b1\<lparr>counter := counter b1 - 1\<rparr> else b1)"

datatype blocker_op = Enable | Disable

fun blocker_step :: "blocker_op \<Rightarrow> ShutdownBlocker \<Rightarrow> ShutdownBlocker" where
  "blocker_step Enable b = enable b"
| "blocker_step Disable b = disable b"

text \<open>Runs a sequence of calls, first element first.\<close>

fun blocker_run :: "blocker_op list \<Rightarrow> ShutdownBlocker \<Rightarrow> ShutdownBlocker" where
  "blocker_run [] b = b"
| "blocker_run (x # xs) b = blocker_run xs (blocker_step x b)"

text \<open>
  The operating system's side of the protocol, read off a list of calls (most recent
  first): \<open>Some True\<close> when a veto is registered, \<open>Some False\<close> when none is, and \<open>None\<close>
  when the list registers twice in a row or unregisters a veto that is not there.
\<close>

fun veto :: "os_call list \<Rightarrow> bool option" where
  "veto [] = Some False"
| "veto (c # cs) =
     (case veto cs of
        None \<Rightarrow> None
      | Some active \<Rightarrow>
          (case c of
             ShutdownBlockReasonCreate \<Rightarrow> if active then None else Some True
           | ShutdownBlockReasonDestroy \<Rightarrow> if active then Some False else None))"

section \<open>Python values shared by the rest of the model\<close>

text \<open>
  The exceptions that occur: \<open>RuntimeError\<close> is raised by the recursion guard,
  \<open>IndexError\<close> by list indexing, \<open>TypeError\<close> by unpacking \<open>None\<close>, \<open>AttributeError\<close> by
  reading an attribute that was never set, and \<open>ApiError\<close> stands for any exception
  raised inside the VirtualBox API. All of them are subclasses of \<open>Exception\<close>.
\<close>

datatype exn = RuntimeError | IndexError | TypeError | AttributeError | ApiError

text \<open>A call of \<open>logging.debug/info/error\<close>: its level and its format string.\<close>

datatype level = DEBUG | INFO | ERROR

type_synonym log_entry = "level \<times> string"

section \<open>VBCController: the worker thread and its callers\<close>

text \<open>
  The controller is modelled for one caller at a time. The hand-over between the caller
  and the worker (\<open>_wq\<close>, \<open>_call_method\<close>, \<open>_call_args\<close>) is a rendezvous: the caller stores
  the method and waits on \<open>_ev_result\<close>, the worker runs the method, clears
  \<open>_call_method\<close>/\<open>_call_args\<close> and sets \<open>_ev_result\<close>. Both attributes are \<open>None\<close> whenever
  no call is in progress, so they are not fields of the record.

  \<open>thread\<close> is \<open>None\<close> while \<open>self._thread\<close> is \<open>None\<close>, \<open>Some Dead\<close> for a thread object
  that is not alive, and \<open>Some (Alive x)\<close> for a live worker that owns the context
  \<open>self.ctx = x\<close> (the worker sets \<open>self.ctx\<close> when it starts and deletes it when it
  leaves). \<open>stop_timer\<close> is \<open>None\<close> or a \<open>threading.Timer\<close> with the answer of its
  \<open>is_alive()\<close>. \<open>ev_result\<close> and \<open>ev_started\<close> are the flags of the two events.
  \<open>clog\<close> holds the lines the controller logs, most recent first.
\<close>

datatype 'c worker = Alive 'c | Dead

datatype timer = TimerAlive | TimerFinished

record ('c, 'r) VBCController =
  enabled :: bool
  acquire_cnt :: int
  ev_result :: bool
  ev_started :: bool
  stop_timer :: "timer option"
  thread :: "'c worker option"
  call_result :: "'r option"
  clog :: "log_entry list"

definition VBCController_init :: "('c, 'r) VBCController" where
  "VBCController_init =
     \<lparr>enabled = False, acquire_cnt = 0, ev_result = False, ev_started = False,
      stop_timer = None, thread = None, call_result = None, clog = []\<rparr>"

text \<open>
  A method handed to \<open>call\<close> runs on the context and either raises or returns a value;
  \<open>Inr None\<close> is the Python value \<open>None\<close>.
\<close>

type_synonym ('c, 'r) context_method = "'c \<Rightarrow> (exn + 'r option) \<times> 'c"

text \<open>What \<open>call\<close> does, seen by its caller: it returns a value, or it never returns.\<close>

datatype 'r outcome = Returns "'r option" | BlocksForever

text \<open>\<open>_timer_stop\<close>.\<close>

definition timer_stop :: "('c, 'r) VBCController \<Rightarrow> ('c, 'r) VBCController" where
  "timer_stop c =
     (if stop_timer c = Some TimerAlive then c\<lparr>stop_timer := None\<rparr> else c)"

text \<open>\<open>_timer_start\<close>: the new timer is started, so it is alive.\<close>

definition timer_start :: "('c, 'r) VBCController \<Rightarrow> ('c, 'r) VBCController" where
  "timer_start c =
     (if acquire_cnt c > 0 then c
      else (timer_stop c)\<lparr>stop_timer := Some TimerAlive\<rparr>)"

text \<open>
  \<open>_start\<close>. The new thread runs \<open>_worker\<close>: it sets \<open>_ev_started\<close> and then evaluates
  \<open>VBContext()\<close>. The parameter \<open>spawn\<close> is what happens there: \<open>Some x\<close> when the
  constructor returns the context \<open>x\<close> (the worker then waits in its loop), \<open>None\<close> when
  it raises (the thread ends at once). \<open>Thread.start()\<close> itself is taken to succeed.
\<close>

definition start :: "'c option \<Rightarrow> ('c, 'r) VBCController \<Rightarrow> ('c, 'r) VBCController" where
  "start spawn c =
     (if \<not> enabled c
      then c\<lparr>enabled := True,
             thread := Some (case spawn of Some x \<Rightarrow> Alive x | None \<Rightarrow> Dead),
             ev_started := True\<rparr>
      else c)"

text \<open>
  \<open>stop\<close>. A live worker that sees \<open>_enabled = False\<close> leaves its loop, sets
  \<open>_call_result = None\<close>, releases the context and ends; \<open>join\<close> returns then.
\<close>

definition stop :: "('c, 'r) VBCController \<Rightarrow> ('c, 'r) VBCController" where
  "stop c =
     (let c1 = c\<lparr>enabled := False\<rparr>;
          c2 = (case thread c1 of
                  None \<Rightarrow> c1
                | Some Dead \<Rightarrow> c1
                | Some (Alive x) \<Rightarrow> c1\<lparr>thread := Some Dead, call_result := None\<rparr>)
      in c2\<lparr>ev_started := False\<rparr>)"

text \<open>\<open>__enter__\<close> and \<open>__exit__\<close> of the controller.\<close>

definition acquire :: "'c option \<Rightarrow> ('c, 'r) VBCController \<Rightarrow> ('c, 'r) VBCController" where
  "acquire spawn c =
     (let c1 = timer_stop c;
          c2 = c1\<lparr>acquire_cnt := acquire_cnt c1 + 1\<rparr>
      in start spawn c2)"

definition release :: "('c, 'r) VBCController \<Rightarrow> ('c, 'r) VBCController" where
  "release c =
     (let c1 = c\<lparr>acquire_cnt := acquire_cnt c - 1\<rparr>
      in if acquire_cnt c1 = 0 then timer_start c1 else c1)"

text \<open>
  One round of the worker's loop with a method waiting: lines 84 to 91 of the source.
  When the method raises, \<open>_call_result\<close> is not assigned.
\<close>

definition worker_round ::
  "('c, 'r) context_method \<Rightarrow> 'c \<Rightarrow> ('c, 'r) VBCController \<Rightarrow> ('c, 'r) VBCController" where
  "worker_round context_method x c =
     (case context_method x of
        (Inr r, x') \<Rightarrow>
          c\<lparr>call_result := r, thread := Some (Alive x'), ev_result := True\<rparr>
      | (Inl exc, x') \<Rightarrow>
          c\<lparr>clog := (ERROR, ''Call to VB context failed: %s'') # clog c,
            thread := Some (Alive x'), ev_result := True\<rparr>)"

text \<open>
  \<open>_call_async\<close>, followed by the worker's round when the method was handed over.
\<close>

definition call_async ::
  "('c, 'r) context_method \<Rightarrow> ('c, 'r) VBCController \<Rightarrow> ('c, 'r) VBCController" where
  "call_async context_method c =
     (case thread c of
        Some (Alive x) \<Rightarrow> worker_round context_method x (c\<lparr>ev_result := False\<rparr>)
      | Some Dead \<Rightarrow> c\<lparr>clog := (ERROR, ''VBController thread is not running!'') # clog c\<rparr>
      | None \<Rightarrow> c\<lparr>clog := (ERROR, ''VBController thread is not running!'') # clog c\<rparr>)"

text \<open>
  \<open>call\<close>. \<open>self._ev_result.wait()\<close> returns when the event is set; only the worker
  sets it, so with the event clear after \<open>_call_async\<close> the caller waits forever.
\<close>

definition call ::
  "'c option \<Rightarrow> ('c, 'r) context_method \<Rightarrow> ('c, 'r) VBCController
     \<Rightarrow> 'r outcome \<times> ('c, 'r) VBCController" where
  "call spawn context_method c =
     (let c1 = timer_stop c;
          c2 = start spawn c1;
          c3 = call_async context_method c2
      in if ev_result c3
         then (let c4 = timer_start c3 in (Returns (call_result c4), c4))
         else (BlocksForever, c3))"

section \<open>The VirtualBox API as seen by VBContext\<close>

datatype machine_state =
  PoweredOff | Saved | Teleported | Aborted | Running | Paused | OtherState nat

text \<open>\<open>self.OffMachineStates\<close>, in the order of the source's tuple.\<close>

definition OffMachineStates :: "machine_state list" where
  "OffMachineStates = [PoweredOff, Saved, Teleported, Aborted]"

text \<open>A COM machine object (\<open>IMachine\<close>) is identified by a number.\<close>

type_synonym handle = nat

text \<open>
  Every interaction with the API, and \<open>time.sleep(1)\<close>. \<open>GetMachines\<close> is
  \<open>VBM.getArray(VB, 'machines')\<close>; \<open>GetName m\<close> and \<open>GetState m\<close> read \<open>m.name\<close> and
  \<open>m.state\<close>; \<open>GetSessionObject\<close> is \<open>VBM.getSessionObject(VB)\<close>; \<open>LockMachine m\<close> is
  \<open>m.lockMachine(sess, locktype)\<close>; \<open>GetSessionMachine\<close> reads \<open>sess.machine\<close>;
  \<open>ConsoleResume\<close> and \<open>ConsolePowerButton\<close> are \<open>sess.console.resume()\<close> and
  \<open>sess.console.PowerButton()\<close>; \<open>SaveState m\<close> is \<open>m.saveState()\<close>; \<open>UnlockMachine\<close> is
  \<open>sess.unlockMachine()\<close>.
\<close>

datatype api_call =
    GetMachines
  | GetName handle
  | GetState handle
  | GetSessionObject
  | LockMachine handle
  | GetSessionMachine
  | ConsoleResume
  | ConsolePowerButton
  | SaveState handle
  | UnlockMachine
  | Sleep

text \<open>
  The API is outside the program, so it is a parameter: each answer may depend on
  everything the program has done so far (the list of earlier interactions, most recent
  first). \<open>None\<close>, or \<open>False\<close> for a command, means that the API raises.
\<close>

record vbox =
  vb_machines :: "api_call list \<Rightarrow> handle list option"
  vb_name :: "api_call list \<Rightarrow> handle \<Rightarrow> string option"
  vb_state :: "api_call list \<Rightarrow> handle \<Rightarrow> machine_state option"
  vb_session_machine :: "api_call list \<Rightarrow> handle option"
  vb_command :: "api_call list \<Rightarrow> api_call \<Rightarrow> bool"

section \<open>VBContext\<close>

text \<open>
  The state a method of \<open>VBContext\<close> works on: the interactions with the API so far and
  the lines logged so far (both most recent first), and \<open>_recursion_guard._value\<close>.
\<close>

record VBContext =
  trace :: "api_call list"
  log :: "log_entry list"
  recursion_guard :: int

definition VBContext_init :: VBContext where
  "VBContext_init = \<lparr>trace = [], log = [], recursion_guard = 0\<rparr>"

text \<open>A statement: it changes the state and raises or yields a value.\<close>

type_synonym 'a prog = "VBContext \<Rightarrow> (exn + 'a) \<times> VBContext"

definition ret :: "'a \<Rightarrow> 'a prog" where
  "ret v s = (Inr v, s)"

definition raise :: "exn \<Rightarrow> 'a prog" where
  "raise e s = (Inl e, s)"

text \<open>Sequencing: an exception of the first statement skips the second.\<close>

definition bnd :: "'a prog \<Rightarrow> ('a \<Rightarrow> 'b prog) \<Rightarrow> 'b prog" where
  "bnd m f s = (case m s of (Inl e, s1) \<Rightarrow> (Inl e, s1) | (Inr v, s1) \<Rightarrow> f v s1)"

text \<open>\<open>try: m except Exception as exc: h\<close>.\<close>

definition try_except :: "'a prog \<Rightarrow> (exn \<Rightarrow> 'a prog) \<Rightarrow> 'a prog" where
  "try_except m h s = (case m s of (Inl e, s1) \<Rightarrow> h e s1 | (Inr v, s1) \<Rightarrow> (Inr v, s1))"

text \<open>
  \<open>with cm as v: body\<close> for a context manager whose \<open>__exit__\<close> returns \<open>None\<close>: when
  \<open>__enter__\<close> raises, neither the body nor \<open>__exit__\<close> runs; otherwise \<open>__exit__\<close> runs
  after the body, also when the body raises or returns, and the body's exception or
  value is passed on. Binding \<open>v\<close> belongs to the body.
\<close>

definition with_stmt :: "'a prog \<Rightarrow> unit prog \<Rightarrow> ('a \<Rightarrow> 'b prog) \<Rightarrow> 'b prog" where
  "with_stmt enter exit body s =
     (case enter s of
        (Inl e, s1) \<Rightarrow> (Inl e, s1)
      | (Inr v, s1) \<Rightarrow>
          (case body v s1 of
             (r, s2) \<Rightarrow>
               (case exit s2 of
                  (Inl e, s3) \<Rightarrow> (Inl e, s3)
                | (Inr u, s3) \<Rightarrow> (r, s3))))"

text \<open>
  \<open>for i in range(n): body\<close> where the body does not use \<open>i\<close> and either goes on to the
  next round or executes \<open>return v\<close>. The result is \<open>Some v\<close> after a \<open>return v\<close> and \<open>None\<close>
  when the loop ran to its end.
\<close>

datatype 'a ctl = Continue | Return 'a

fun for_range :: "nat \<Rightarrow> 'a ctl prog \<Rightarrow> 'a option prog" where
  "for_range 0 body s = (Inr None, s)"
| "for_range (Suc n) body s =
     (case body s of
        (Inl e, s1) \<Rightarrow> (Inl e, s1)
      | (Inr (Return v), s1) \<Rightarrow> (Inr (Some v), s1)
      | (Inr Continue, s1) \<Rightarrow> for_range n body s1)"

text \<open>\<open>xs[i]\<close> on a Python list.\<close>

definition getitem :: "'a list \<Rightarrow> int \<Rightarrow> 'a prog" where
  "getitem xs i =
     (if 0 \<le> i \<and> i < int (length xs) then ret (xs ! nat i)
      else if i < 0 \<and> - int (length xs) \<le> i then ret (xs ! nat (int (length xs) + i))
      else raise IndexError)"

text \<open>Unpacking the value of \<open>__enter__\<close> into \<open>(sess, machine)\<close>.\<close>

definition unpack :: "'a option \<Rightarrow> 'a prog" where
  "unpack r = (case r of None \<Rightarrow> raise TypeError | Some v \<Rightarrow> ret v)"

definition logging :: "level \<Rightarrow> string \<Rightarrow> unit prog" where
  "logging lvl msg s = (Inr (), s\<lparr>log := (lvl, msg) # log s\<rparr>)"

definition sleep :: "unit prog" where
  "sleep s = (Inr (), s\<lparr>trace := Sleep # trace s\<rparr>)"

text \<open>An interaction with the API is recorded whether it raises or not.\<close>

definition api :: "api_call \<Rightarrow> 'a option \<Rightarrow> 'a prog" where
  "api c answer s =
     (case answer of None \<Rightarrow> Inl ApiError | Some v \<Rightarrow> Inr v, s\<lparr>trace := c # trace s\<rparr>)"

text \<open>
  \<open>_machines\<close>. A context built without the \<open>vboxapi\<close> package has no \<open>VBM\<close>; its
  \<open>_machines\<close> raises on every call, which is an interface whose \<open>vb_machines\<close> is always
  \<open>None\<close>.
\<close>

definition raw_machines :: "vbox \<Rightarrow> handle list prog" where
  "raw_machines env s = api GetMachines (vb_machines env (trace s)) s"

definition get_name :: "vbox \<Rightarrow> handle \<Rightarrow> string prog" where
  "get_name env m s = api (GetName m) (vb_name env (trace s) m) s"

definition get_state :: "vbox \<Rightarrow> handle \<Rightarrow> machine_state prog" where
  "get_state env m s = api (GetState m) (vb_state env (trace s) m) s"

definition session_machine :: "vbox \<Rightarrow> handle prog" where
  "session_machine env s = api GetSessionMachine (vb_session_machine env (trace s)) s"

definition command :: "vbox \<Rightarrow> api_call \<Rightarrow> unit prog" where
  "command env c s = api c (if vb_command env (trace s) c then Some () else None) s"

subsection \<open>RecursionGuard\<close>

definition RecursionGuard_enter :: "unit prog" where
  "RecursionGuard_enter s =
     (let s1 = s\<lparr>recursion_guard := recursion_guard s + 1\<rparr>
      in if recursion_guard s1 > 1 then (Inl RuntimeError, s1) else (Inr (), s1))"

definition RecursionGuard_exit :: "unit prog" where
  "RecursionGuard_exit s = (Inr (), s\<lparr>recursion_guard := recursion_guard s - 1\<rparr>)"

text \<open>\<open>with self._recursion_guard: body\<close>.\<close>

definition guarded :: "'a prog \<Rightarrow> 'a prog" where
  "guarded body = with_stmt RecursionGuard_enter RecursionGuard_exit (\<lambda>u. body)"

subsection \<open>VBSession\<close>

text \<open>
  \<open>__init__\<close>: the value tells whether \<open>self.sess\<close> was assigned. When
  \<open>getSessionObject\<close> raises, the attribute does not exist.
\<close>

definition VBSession_init :: "vbox \<Rightarrow> bool prog" where
  "VBSession_init env =
     try_except
       (bnd (command env GetSessionObject) (\<lambda>u. ret True))
       (\<lambda>exc. bnd (logging DEBUG ''Failed to get session object: %s'') (\<lambda>u. ret False))"

text \<open>
  \<open>__enter__\<close>: \<open>Some m\<close> is the pair \<open>(self.sess, self.sess.machine)\<close> with the session's
  machine \<open>m\<close>; \<open>None\<close> is the value returned after a caught exception. Reading
  \<open>self.sess\<close> when it was never assigned raises \<open>AttributeError\<close> inside the \<open>try\<close>.
\<close>

definition VBSession_enter :: "vbox \<Rightarrow> bool \<Rightarrow> handle \<Rightarrow> handle option prog" where
  "VBSession_enter env sess machine =
     try_except
       (if sess
        then bnd (command env (LockMachine machine)) (\<lambda>u.
             bnd (session_machine env) (\<lambda>m. ret (Some m)))
        else raise AttributeError)
       (\<lambda>exc. bnd (logging DEBUG ''Failed to lock machine: %s'') (\<lambda>u. ret None))"

definition VBSession_exit :: "vbox \<Rightarrow> bool \<Rightarrow> unit prog" where
  "VBSession_exit env sess =
     try_except
       (if sess then command env UnlockMachine else raise AttributeError)
       (\<lambda>exc. logging DEBUG ''Failed to unlock session: %s'')"

text \<open>\<open>with VBSession(self, machine, self.LockType.Shared) as (sess, machine): body\<close>.\<close>

definition with_session :: "vbox \<Rightarrow> handle \<Rightarrow> (handle \<Rightarrow> 'a prog) \<Rightarrow> 'a prog" where
  "with_session env machine body =
     bnd (VBSession_init env) (\<lambda>sess.
       with_stmt (VBSession_enter env sess machine) (VBSession_exit env sess)
         (\<lambda>r. bnd (unpack r) body))"

subsection \<open>Enumeration\<close>

text \<open>\<open>VBContext.Machine\<close>, the surrogate of a machine.\<close>

record Machine =
  index :: int
  name :: string
  state :: machine_state

definition Machine_init :: "vbox \<Rightarrow> int \<Rightarrow> handle \<Rightarrow> Machine prog" where
  "Machine_init env i vb_machine =
     bnd (get_name env vb_machine) (\<lambda>n.
     bnd (get_state env vb_machine) (\<lambda>st.
     ret \<lparr>index = i, name = n, state = st\<rparr>))"

text \<open>
  The loop of \<open>machines\<close> over the rest of the raw list, with the current values of \<open>i\<close>
  and \<open>res\<close>. The handler is \<open>pass\<close>: the line that would log is a comment in the source.
\<close>

fun machines_loop :: "vbox \<Rightarrow> handle list \<Rightarrow> int \<Rightarrow> Machine list \<Rightarrow> Machine list prog" where
  "machines_loop env [] i res s = (Inr res, s)"
| "machines_loop env (m # ms) i res s =
     (case try_except
             (bnd (Machine_init env (i + 1 - 1) m) (\<lambda>x. ret (res @ [x])))
             (\<lambda>exc. ret res) s of
        (Inl e, s1) \<Rightarrow> (Inl e, s1)
      | (Inr res1, s1) \<Rightarrow> machines_loop env ms (i + 1) res1 s1)"

definition machines :: "vbox \<Rightarrow> Machine list prog" where
  "machines env = bnd (raw_machines env) (\<lambda>ms. machines_loop env ms 0 [])"

definition machines_running :: "vbox \<Rightarrow> Machine list prog" where
  "machines_running env =
     bnd (machines env) (\<lambda>ms. ret (filter (\<lambda>m. state m \<notin> set OffMachineStates) ms))"

subsection \<open>shutdown\_machine\<close>

text \<open>
  One round of the loop, lines 226 to 235. Looking a state up in \<open>self.MachineState\<close> for
  the log line is taken to succeed.
\<close>

definition shutdown_round :: "vbox \<Rightarrow> handle \<Rightarrow> bool ctl prog" where
  "shutdown_round env machine =
     bnd (get_name env machine) (\<lambda>n.
     bnd (get_state env machine) (\<lambda>st0.
     bnd (logging INFO ''Machine `%s` is in state: %s'') (\<lambda>u.
     bnd (get_state env machine) (\<lambda>st1.
     bnd (if st1 = Paused
          then bnd (command env ConsoleResume) (\<lambda>u. ret Continue)
          else bnd (get_state env machine) (\<lambda>st2.
               if st2 \<in> set OffMachineStates
               then bnd (get_name env machine) (\<lambda>n.
                    bnd (get_state env machine) (\<lambda>st3.
                    bnd (logging INFO ''Machine `%s` is in state: %s. Were done !'') (\<lambda>u.
                    ret (Return True))))
               else bnd (command env ConsolePowerButton) (\<lambda>u. ret Continue)))
       (\<lambda>c. case c of
               Return v \<Rightarrow> ret (Return v)
             | Continue \<Rightarrow> bnd sleep (\<lambda>u. ret Continue))))))"

text \<open>The value is \<open>Some True\<close> for \<open>return True\<close> and \<open>None\<close> when the function falls off its end.\<close>

definition shutdown_machine :: "vbox \<Rightarrow> Machine \<Rightarrow> bool option prog" where
  "shutdown_machine env machine_surrogate =
     guarded
       (try_except
          (bnd (raw_machines env) (\<lambda>ms.
           bnd (getitem ms (index machine_surrogate)) (\<lambda>machine.
           bnd (get_name env machine) (\<lambda>n.
           bnd (logging INFO ''Attempting ACPI shutdown for `%s`.'') (\<lambda>u.
           with_session env machine (\<lambda>machine.
             try_except
               (for_range 20 (shutdown_round env machine))
               (\<lambda>exc. bnd (get_name env machine) (\<lambda>n.
                       bnd (logging ERROR ''Failed to ACPI shutdown `%s`: %s'') (\<lambda>u.
                       ret None)))))))))
          (\<lambda>exc. bnd (logging ERROR ''Failed to access machine member: %s'') (\<lambda>u.
                  ret None)))"

subsection \<open>save\_machine\<close>

text \<open>
  One round of the polling loop, lines 253 to 256, with the same reading of the log line
  as in \<open>shutdown_round\<close>.
\<close>

definition save_round :: "vbox \<Rightarrow> handle \<Rightarrow> bool ctl prog" where
  "save_round env machine =
     bnd (get_name env machine) (\<lambda>n.
     bnd (get_state env machine) (\<lambda>st0.
     bnd (logging INFO ''Machine `%s` is in state: %s'') (\<lambda>u.
     bnd (get_state env machine) (\<lambda>st1.
     if st1 \<in> set OffMachineStates then ret (Return True)
     else bnd sleep (\<lambda>u. ret Continue)))))"

definition save_machine :: "vbox \<Rightarrow> Machine \<Rightarrow> bool option prog" where
  "save_machine env machine_surrogate =
     guarded
       (try_except
          (bnd (raw_machines env) (\<lambda>ms.
           bnd (getitem ms (index machine_surrogate)) (\<lambda>machine.
           bnd (get_name env machine) (\<lambda>n.
           bnd (logging INFO ''Checking machine `%s` ... '') (\<lambda>u.
           bnd (get_state env machine) (\<lambda>st.
           if st \<notin> set OffMachineStates
           then bnd (get_name env machine) (\<lambda>n.
                bnd (logging INFO ''Saving machine `%s` ... '') (\<lambda>u.
                with_session env machine (\<lambda>machine.
                  try_except
                    (bnd (command env (SaveState machine)) (\<lambda>u.
                     bnd (for_range 20 (save_round env machine)) (\<lambda>r.
                     case r of
                       Some v \<Rightarrow> ret (Some v)
                     | None \<Rightarrow>
                         bnd (get_name env machine) (\<lambda>n.
                         bnd (logging ERROR
                                ''Failed to save `%s`: Took too much time to save !'') (\<lambda>u.
                         ret None)))))
                    (\<lambda>exc. bnd (get_name env machine) (\<lambda>n.
                            bnd (logging ERROR ''Failed to save `%s`: %s'') (\<lambda>u.
                            ret None))))))
           else ret None))))))
          (\<lambda>exc. bnd (logging ERROR ''Failed to access machine member: %s'') (\<lambda>u.
                  ret None)))"

section \<open>Counting interactions\<close>

text \<open>The number of \<open>time.sleep(1)\<close> in a list of interactions.\<close>

definition sleeps :: "api_call list \<Rightarrow> nat" where
  "sleeps tr = length (filter (\<lambda>c. c = Sleep) tr)"

text \<open>The number of commands sent to the console.\<close>

definition presses :: "api_call list \<Rightarrow> nat" where
  "presses tr = length (filter (\<lambda>c. c = ConsoleResume \<or> c = ConsolePowerButton) tr)"

section \<open>Example interfaces\<close>

text \<open>
  One machine with handle \<open>0\<close>, whose session machine has handle \<open>1\<close>; every call
  succeeds and every machine is always in the state \<open>st\<close>.
\<close>

definition vbox_const :: "machine_state \<Rightarrow> vbox" where
  "vbox_const st =
     \<lparr>vb_machines = (\<lambda>tr. Some [0]),
      vb_name = (\<lambda>tr m. Some ''vm''),
      vb_state = (\<lambda>tr m. Some st),
      vb_session_machine = (\<lambda>tr. Some 1),
      vb_command = (\<lambda>tr c. True)\<rparr>"


text \<open>Two machines; reading the name of the first one raises.\<close>

definition vbox_unreadable :: vbox where
  "vbox_unreadable =
     (vbox_const Running)
       \<lparr>vb_machines := (\<lambda>tr. Some [0, 1]),
        vb_name := (\<lambda>tr m. if m = 0 then None else Some ''vm'')\<rparr>"

text \<open>The list of machines can be read once; every later attempt raises.\<close>

definition vbox_flaky :: vbox where
  "vbox_flaky =
     (vbox_const Running)
       \<lparr>vb_machines := (\<lambda>tr. if GetMachines \<in> set tr then None else Some [0])\<rparr>"


text \<open>
  Two machines with handles \<open>10\<close> and \<open>11\<close>; the name of the first cannot be read. Every
  session hands out the machine \<open>21\<close>, and every machine reads as running until the
  state of \<open>21\<close> is saved.
\<close>

definition vbox_pair :: vbox where
  "vbox_pair =
     \<lparr>vb_machines = (\<lambda>tr. Some [10, 11]),
      vb_name = (\<lambda>tr m. if m = 10 then None else Some ''vm''),
      vb_state = (\<lambda>tr m. Some (if SaveState 21 \<in> set tr then Saved else Running)),
      vb_session_machine = (\<lambda>tr. Some 21),
      vb_command = (\<lambda>tr c. True)\<rparr>"

text \<open>The surrogate of the machine at position \<open>0\<close>.\<close>

definition surrogate0 :: Machine where
  "surrogate0 = \<lparr>index = 0, name = ''vm'', state = Running\<rparr>"

text \<open>\<open>VBContext.machines\<close> as a method handed to \<open>call\<close>: its value is the list.\<close>

definition machines_method :: "vbox \<Rightarrow> (VBContext, Machine list) context_method" where
  "machines_method env = bnd (machines env) (\<lambda>ms. ret (Some ms))"

section \<open>The life of a context\<close>

text \<open>
  A context is created by \<open>VBContext()\<close> in the worker and is from then on only worked on
  by the methods that the tray hands to \<open>call\<close>: \<open>machines\<close>, \<open>machines_running\<close>,
  \<open>shutdown_machine\<close> and \<open>save_machine\<close> (lines 398, 426, 438, 439, 444, 446 and 491).
  An exception of a method is caught by the worker; the context keeps the state the
  method left.
\<close>

datatype context_op =
    Machines
  | MachinesRunning
  | ShutdownMachine Machine
  | SaveMachine Machine

fun context_step :: "vbox \<Rightarrow> context_op \<Rightarrow> VBContext \<Rightarrow> VBContext" where
  "context_step env Machines s = snd (machines env s)"
| "context_step env MachinesRunning s = snd (machines_running env s)"
| "context_step env (ShutdownMachine m) s = snd (shutdown_machine env m s)"
| "context_step env (SaveMachine m) s = snd (save_machine env m s)"

fun context_run :: "vbox \<Rightarrow> context_op list \<Rightarrow> VBContext \<Rightarrow> VBContext" where
  "context_run env [] s = s"
| "context_run env (x # xs) s = context_run env xs (context_step env x s)"

text \<open>The context after the given calls, first element first, on a new context.\<close>

definition context_after :: "vbox \<Rightarrow> context_op list \<Rightarrow> VBContext" where
  "context_after env ops = context_run env ops VBContext_init"

section \<open>Notions used in the statements and proofs\<close>

text \<open>
  \<open>m\<close> is a machine that the API hands out as \<open>sess.machine\<close> directly after a lock of
  the machine \<open>h\<close>.
\<close>

definition session_machine_of :: "vbox \<Rightarrow> handle \<Rightarrow> handle \<Rightarrow> bool" where
  "session_machine_of env h m = (\<exists>tr. vb_session_machine env (LockMachine h # tr) = Some m)"

text \<open>
  An interaction that is aimed at the machine \<open>h\<close>: a lock is a lock of \<open>h\<close>, a read of a
  name or a state is a read of \<open>h\<close> or of the machine of a session locked on \<open>h\<close>, and a
  state is saved on the machine of a session locked on \<open>h\<close>. Interactions that name no
  machine are all allowed.
\<close>

definition targets :: "vbox \<Rightarrow> handle \<Rightarrow> api_call \<Rightarrow> bool" where
  "targets env h c =
     (case c of
        GetName m \<Rightarrow> m = h \<or> session_machine_of env h m
      | GetState m \<Rightarrow> m = h \<or> session_machine_of env h m
      | LockMachine m \<Rightarrow> m = h
      | SaveState m \<Rightarrow> session_machine_of env h m
      | GetMachines \<Rightarrow> True
      | GetSessionObject \<Rightarrow> True
      | GetSessionMachine \<Rightarrow> True
      | ConsoleResume \<Rightarrow> True
      | ConsolePowerButton \<Rightarrow> True
      | UnlockMachine \<Rightarrow> True
      | Sleep \<Rightarrow> True)"

text \<open>A statement only adds to the record of interactions: it never rewrites what is there.\<close>

definition extends :: "'a prog \<Rightarrow> bool" where
  "extends m = (\<forall>s. \<exists>tr. trace (snd (m s)) = tr @ trace s)"

text \<open>
  A statement only adds interactions that satisfy \<open>P\<close>, and leaves the recursion guard
  as it found it.
\<close>

definition emits :: "(api_call \<Rightarrow> bool) \<Rightarrow> 'a prog \<Rightarrow> bool" where
  "emits P m =
     (\<forall>s. \<exists>new. trace (snd (m s)) = new @ trace s \<and> list_all P new \<and>
                recursion_guard (snd (m s)) = recursion_guard s)"

text \<open>Run from \<open>s\<close>, the statement ends with a record of interactions that continues \<open>t\<close>.\<close>

definition passes :: "'a prog \<Rightarrow> VBContext \<Rightarrow> api_call list \<Rightarrow> bool" where
  "passes m s t = (\<exists>z. trace (snd (m s)) = z @ t)"

section \<open>Properties\<close>

subsection \<open>Statements only add to the trace\<close>

lemmas prog_defs = ret_def raise_def bnd_def try_except_def with_stmt_def unpack_def
  logging_def sleep_def api_def raw_machines_def get_name_def get_state_def
  session_machine_def command_def

lemmas guard_defs = guarded_def RecursionGuard_enter_def RecursionGuard_exit_def

lemma extendsI: "(\<And>s. \<exists>tr. trace (snd (m s)) = tr @ trace s) \<Longrightarrow> extends m"
  by (simp add: extends_def)

lemma extendsD: "extends m \<Longrightarrow> \<exists>tr. trace (snd (m s)) = tr @ trace s"
  by (simp add: extends_def)

lemma extends_ret [intro!]: "extends (ret v)"
  by (simp add: extends_def ret_def)

lemma extends_raise [intro!]: "extends (raise e)"
  by (simp add: extends_def raise_def)

lemma extends_logging [intro!]: "extends (logging l msg)"
  by (simp add: extends_def logging_def)

lemma extends_sleep [intro!]: "extends sleep"
  by (simp add: extends_def sleep_def)

lemma extends_api: "extends (\<lambda>s. api c (f s) s)"
  by (simp add: extends_def api_def)

lemma extends_prims [intro!]:
  "extends (raw_machines env)" "extends (get_name env m)" "extends (get_state env m)"
  "extends (session_machine env)" "extends (command env c)"
  by (simp_all add: extends_def prog_defs)

lemma extends_bnd [intro!]:
  assumes "extends m" and "\<And>x. extends (f x)"
  shows "extends (bnd m f)"
proof (rule extendsI)
  fix s
  obtain r s1 where ms: "m s = (r, s1)" by (cases "m s")
  from extendsD [OF assms(1), of s] ms obtain tr1 where t1: "trace s1 = tr1 @ trace s"
    by auto
  show "\<exists>tr. trace (snd (bnd m f s)) = tr @ trace s"
  proof (cases r)
    case (Inl e)
    then show ?thesis using ms t1 by (simp add: bnd_def)
  next
    case (Inr v)
    from extendsD [OF assms(2), of v s1] obtain tr2
      where "trace (snd (f v s1)) = tr2 @ trace s1" by auto
    then show ?thesis using ms t1 Inr by (simp add: bnd_def)
  qed
qed

lemma extends_try_except [intro!]:
  assumes "extends m" and "\<And>e. extends (h e)"
  shows "extends (try_except m h)"
proof (rule extendsI)
  fix s
  obtain r s1 where ms: "m s = (r, s1)" by (cases "m s")
  from extendsD [OF assms(1), of s] ms obtain tr1 where t1: "trace s1 = tr1 @ trace s"
    by auto
  show "\<exists>tr. trace (snd (try_except m h s)) = tr @ trace s"
  proof (cases r)
    case (Inr v)
    then show ?thesis using ms t1 by (simp add: try_except_def)
  next
    case (Inl e)
    from extendsD [OF assms(2), of e s1] obtain tr2
      where "trace (snd (h e s1)) = tr2 @ trace s1" by auto
    then show ?thesis using ms t1 Inl by (simp add: try_except_def)
  qed
qed

lemma extends_with_stmt [intro!]:
  assumes "extends en" and "extends ex" and "\<And>x. extends (body x)"
  shows "extends (with_stmt en ex body)"
proof (rule extendsI)
  fix s
  obtain r s1 where es: "en s = (r, s1)" by (cases "en s")
  from extendsD [OF assms(1), of s] es obtain tr1 where t1: "trace s1 = tr1 @ trace s"
    by auto
  show "\<exists>tr. trace (snd (with_stmt en ex body s)) = tr @ trace s"
  proof (cases r)
    case (Inl e)
    then show ?thesis using es t1 by (simp add: with_stmt_def)
  next
    case (Inr v)
    obtain r2 s2 where bs: "body v s1 = (r2, s2)" by (cases "body v s1")
    from extendsD [OF assms(3), of v s1] bs obtain tr2 where t2: "trace s2 = tr2 @ trace s1"
      by auto
    obtain r3 s3 where xs: "ex s2 = (r3, s3)" by (cases "ex s2")
    from extendsD [OF assms(2), of s2] xs obtain tr3 where t3: "trace s3 = tr3 @ trace s2"
      by auto
    show ?thesis using es bs xs t1 t2 t3 Inr
      by (cases r3) (simp_all add: with_stmt_def)
  qed
qed

lemma extends_for_range [intro!]:
  assumes "extends body"
  shows "extends (for_range n body)"
proof (rule extendsI)
  fix s
  show "\<exists>tr. trace (snd (for_range n body s)) = tr @ trace s"
  proof (induction n arbitrary: s)
    case 0
    show ?case by simp
  next
    case (Suc n)
    obtain r s1 where bs: "body s = (r, s1)" by (cases "body s")
    from extendsD [OF assms, of s] bs obtain tr1 where t1: "trace s1 = tr1 @ trace s"
      by auto
    show ?case
    proof (cases r)
      case (Inl e)
      then show ?thesis using bs t1 by simp
    next
      case (Inr c)
      show ?thesis
      proof (cases c)
        case Continue
        from Suc.IH [of s1] obtain tr2
          where "trace (snd (for_range n body s1)) = tr2 @ trace s1" by auto
        then show ?thesis using bs t1 Inr Continue by simp
      next
        case (Return v)
        then show ?thesis using bs t1 Inr by simp
      qed
    qed
  qed
qed

lemma extends_if [intro!]: "extends a \<Longrightarrow> extends b \<Longrightarrow> extends (if c then a else b)"
  by simp

lemma extends_unpack [intro!]: "extends (unpack r)"
  by (cases r) (auto simp: unpack_def)

lemma extends_getitem [intro!]: "extends (getitem xs i)"
  by (auto simp: getitem_def)

lemma extends_guard [intro!]: "extends RecursionGuard_enter" "extends RecursionGuard_exit"
  by (simp_all add: extends_def RecursionGuard_enter_def RecursionGuard_exit_def Let_def)

lemma extends_guarded [intro!]: "extends body \<Longrightarrow> extends (guarded body)"
  unfolding guarded_def by auto

lemma extends_session [intro!]:
  "extends (VBSession_init env)" "extends (VBSession_enter env sess m)"
  "extends (VBSession_exit env sess)"
  unfolding VBSession_init_def VBSession_enter_def VBSession_exit_def by auto

lemma extends_with_session [intro!]:
  "(\<And>m. extends (body m)) \<Longrightarrow> extends (with_session env machine body)"
  unfolding with_session_def by auto

lemma extends_ctl [intro!]:
  "extends a \<Longrightarrow> (\<And>v. extends (b v)) \<Longrightarrow> extends (case c of Continue \<Rightarrow> a | Return v \<Rightarrow> b v)"
  by (cases c) simp_all

lemma extends_shutdown_round [intro!]: "extends (shutdown_round env m)"
  unfolding shutdown_round_def by auto

lemma extends_save_round [intro!]: "extends (save_round env m)"
  unfolding save_round_def by auto


subsection \<open>Statements keep to their interactions and to the guard\<close>

lemma emitsI:
  assumes "\<And>s. \<exists>new. trace (snd (m s)) = new @ trace s \<and> list_all P new \<and>
                recursion_guard (snd (m s)) = recursion_guard s"
  shows "emits P m"
  using assms by (simp add: emits_def)

lemma emitsD:
  assumes "emits P m"
  obtains new where "trace (snd (m s)) = new @ trace s" and "list_all P new"
    and "recursion_guard (snd (m s)) = recursion_guard s"
  using assms unfolding emits_def by blast

lemma emits_extends: "emits P m \<Longrightarrow> extends m"
  unfolding emits_def extends_def by blast

lemma emits_ret [intro!]: "emits P (ret v)"
  by (simp add: emits_def ret_def)

lemma emits_raise [intro!]: "emits P (raise e)"
  by (simp add: emits_def raise_def)

lemma emits_logging [intro!]: "emits P (logging l msg)"
  by (simp add: emits_def logging_def)

lemma emits_sleep [intro]: "P Sleep \<Longrightarrow> emits P sleep"
  by (simp add: emits_def sleep_def)

lemma emits_raw_machines [intro]: "P GetMachines \<Longrightarrow> emits P (raw_machines env)"
  by (simp add: emits_def prog_defs)

lemma emits_get_name [intro]: "P (GetName m) \<Longrightarrow> emits P (get_name env m)"
  by (simp add: emits_def prog_defs)

lemma emits_get_state [intro]: "P (GetState m) \<Longrightarrow> emits P (get_state env m)"
  by (simp add: emits_def prog_defs)

lemma emits_session_machine [intro]: "P GetSessionMachine \<Longrightarrow> emits P (session_machine env)"
  by (simp add: emits_def prog_defs)

lemma emits_command [intro]: "P c \<Longrightarrow> emits P (command env c)"
  by (simp add: emits_def prog_defs)

lemma emits_bnd_cond:
  assumes m: "emits P m"
    and R: "\<And>s x s'. m s = (Inr x, s') \<Longrightarrow> R x"
    and f: "\<And>x. R x \<Longrightarrow> emits P (f x)"
  shows "emits P (bnd m f)"
proof (rule emitsI)
  fix s
  obtain r s1 where ms: "m s = (r, s1)" by (cases "m s")
  from emitsD [OF m, of s] ms obtain n1 where t1: "trace s1 = n1 @ trace s"
    and p1: "list_all P n1" and g1: "recursion_guard s1 = recursion_guard s"
    by auto
  show "\<exists>new. trace (snd (bnd m f s)) = new @ trace s \<and> list_all P new \<and>
                recursion_guard (snd (bnd m f s)) = recursion_guard s"
  proof (cases r)
    case (Inl e)
    then show ?thesis using ms t1 p1 g1 by (simp add: bnd_def)
  next
    case (Inr v)
    with ms R have "R v" by blast
    from emitsD [OF f [OF this], of s1] obtain n2 where
      "trace (snd (f v s1)) = n2 @ trace s1" and "list_all P n2"
      and "recursion_guard (snd (f v s1)) = recursion_guard s1"
      by auto
    then show ?thesis using ms t1 p1 g1 Inr
      by (intro exI [of _ "n2 @ n1"]) (simp add: bnd_def)
  qed
qed

lemma emits_bnd [intro!]:
  assumes "emits P m" and "\<And>x. emits P (f x)"
  shows "emits P (bnd m f)"
  by (rule emits_bnd_cond [where R = "\<lambda>x. True"]) (simp_all add: assms)

lemma emits_try_except [intro!]:
  assumes m: "emits P m" and h: "\<And>e. emits P (h e)"
  shows "emits P (try_except m h)"
proof (rule emitsI)
  fix s
  obtain r s1 where ms: "m s = (r, s1)" by (cases "m s")
  from emitsD [OF m, of s] ms obtain n1 where t1: "trace s1 = n1 @ trace s"
    and p1: "list_all P n1" and g1: "recursion_guard s1 = recursion_guard s"
    by auto
  show "\<exists>new. trace (snd (try_except m h s)) = new @ trace s \<and> list_all P new \<and>
                recursion_guard (snd (try_except m h s)) = recursion_guard s"
  proof (cases r)
    case (Inr v)
    then show ?thesis using ms t1 p1 g1 by (simp add: try_except_def)
  next
    case (Inl e)
    from emitsD [OF h, of e s1] obtain n2 where
      "trace (snd (h e s1)) = n2 @ trace s1" and "list_all P n2"
      and "recursion_guard (snd (h e s1)) = recursion_guard s1"
      by auto
    then show ?thesis using ms t1 p1 g1 Inl
      by (intro exI [of _ "n2 @ n1"]) (simp add: try_except_def)
  qed
qed

lemma emits_with_stmt_cond:
  assumes en: "emits P en" and ex: "emits P ex"
    and R: "\<And>s v s'. en s = (Inr v, s') \<Longrightarrow> R v"
    and body: "\<And>v. R v \<Longrightarrow> emits P (body v)"
  shows "emits P (with_stmt en ex body)"
proof (rule emitsI)
  fix s
  obtain r s1 where es: "en s = (r, s1)" by (cases "en s")
  from emitsD [OF en, of s] es obtain n1 where t1: "trace s1 = n1 @ trace s"
    and p1: "list_all P n1" and g1: "recursion_guard s1 = recursion_guard s"
    by auto
  show "\<exists>new. trace (snd (with_stmt en ex body s)) = new @ trace s \<and> list_all P new \<and>
                recursion_guard (snd (with_stmt en ex body s)) = recursion_guard s"
  proof (cases r)
    case (Inl e)
    then show ?thesis using es t1 p1 g1 by (simp add: with_stmt_def)
  next
    case (Inr v)
    with es R have Rv: "R v" by blast
    obtain r2 s2 where bs: "body v s1 = (r2, s2)" by (cases "body v s1")
    from emitsD [OF body [OF Rv], of s1] bs obtain n2 where t2: "trace s2 = n2 @ trace s1"
      and p2: "list_all P n2" and g2: "recursion_guard s2 = recursion_guard s1"
      by auto
    obtain r3 s3 where xs: "ex s2 = (r3, s3)" by (cases "ex s2")
    from emitsD [OF ex, of s2] xs obtain n3 where t3: "trace s3 = n3 @ trace s2"
      and p3: "list_all P n3" and g3: "recursion_guard s3 = recursion_guard s2"
      by auto
    show ?thesis using es bs xs t1 t2 t3 p1 p2 p3 g1 g2 g3 Inr
      by (intro exI [of _ "n3 @ n2 @ n1"]) (cases r3; simp add: with_stmt_def)
  qed
qed

lemma emits_with_stmt [intro!]:
  assumes "emits P en" and "emits P ex" and "\<And>v. emits P (body v)"
  shows "emits P (with_stmt en ex body)"
  by (rule emits_with_stmt_cond [where R = "\<lambda>x. True"]) (simp_all add: assms)

lemma emits_for_range [intro!]:
  assumes body: "emits P body"
  shows "emits P (for_range n body)"
proof (rule emitsI)
  fix s
  show "\<exists>new. trace (snd (for_range n body s)) = new @ trace s \<and> list_all P new \<and>
                recursion_guard (snd (for_range n body s)) = recursion_guard s"
  proof (induction n arbitrary: s)
    case 0
    show ?case by simp
  next
    case (Suc n)
    obtain r s1 where bs: "body s = (r, s1)" by (cases "body s")
    from emitsD [OF body, of s] bs obtain n1 where t1: "trace s1 = n1 @ trace s"
      and p1: "list_all P n1" and g1: "recursion_guard s1 = recursion_guard s"
      by auto
    show ?case
    proof (cases r)
      case (Inl e)
      then show ?thesis using bs t1 p1 g1 by simp
    next
      case (Inr c)
      show ?thesis
      proof (cases c)
        case Continue
        from Suc.IH [of s1] obtain n2 where
          "trace (snd (for_range n body s1)) = n2 @ trace s1" and "list_all P n2"
          and "recursion_guard (snd (for_range n body s1)) = recursion_guard s1"
          by auto
        then show ?thesis using bs t1 p1 g1 Inr Continue
          by (intro exI [of _ "n2 @ n1"]) simp
      next
        case (Return v)
        then show ?thesis using bs t1 p1 g1 Inr by simp
      qed
    qed
  qed
qed

lemma emits_if [intro!]: "emits P a \<Longrightarrow> emits P b \<Longrightarrow> emits P (if c then a else b)"
  by simp

lemma emits_unpack [intro!]: "emits P (unpack r)"
  by (cases r) (auto simp: unpack_def)

lemma emits_getitem [intro!]: "emits P (getitem xs i)"
  by (auto simp: getitem_def)

lemma emits_ctl [intro!]:
  "emits P a \<Longrightarrow> (\<And>v. emits P (b v)) \<Longrightarrow> emits P (case c of Continue \<Rightarrow> a | Return v \<Rightarrow> b v)"
  by (cases c) simp_all

lemma emits_option [intro!]:
  "emits P a \<Longrightarrow> (\<And>v. emits P (b v)) \<Longrightarrow> emits P (case r of None \<Rightarrow> a | Some v \<Rightarrow> b v)"
  by (cases r) simp_all

lemma emits_VBSession_init [intro]:
  "P GetSessionObject \<Longrightarrow> emits P (VBSession_init env)"
  unfolding VBSession_init_def by auto

lemma emits_VBSession_enter [intro]:
  "P (LockMachine m) \<Longrightarrow> P GetSessionMachine \<Longrightarrow> emits P (VBSession_enter env sess m)"
  unfolding VBSession_enter_def by auto

lemma emits_VBSession_exit [intro]:
  "P UnlockMachine \<Longrightarrow> emits P (VBSession_exit env sess)"
  unfolding VBSession_exit_def by auto

lemma VBSession_enter_Some:
  assumes "VBSession_enter env sess h s = (Inr (Some m), s')"
  shows "session_machine_of env h m"
  using assms
  by (auto simp: VBSession_enter_def prog_defs session_machine_of_def
      split: if_splits option.splits)

lemma emits_with_session:
  assumes "P GetSessionObject" and "P (LockMachine machine)" and "P GetSessionMachine"
    and "P UnlockMachine"
    and body: "\<And>m. session_machine_of env machine m \<Longrightarrow> emits P (body m)"
  shows "emits P (with_session env machine body)"
  unfolding with_session_def
proof (rule emits_bnd)
  show "emits P (VBSession_init env)" using assms(1) by auto
next
  fix sess
  show "emits P (with_stmt (VBSession_enter env sess machine) (VBSession_exit env sess)
                  (\<lambda>r. bnd (unpack r) body))"
  proof (rule emits_with_stmt_cond
      [where R = "\<lambda>r. \<forall>m. r = Some m \<longrightarrow> session_machine_of env machine m"])
    show "emits P (VBSession_enter env sess machine)" using assms(2,3) by auto
    show "emits P (VBSession_exit env sess)" using assms(4) by auto
  next
    fix s v s'
    assume "VBSession_enter env sess machine s = (Inr v, s')"
    then show "\<forall>m. v = Some m \<longrightarrow> session_machine_of env machine m"
      using VBSession_enter_Some by blast
  next
    fix v
    assume R: "\<forall>m. v = Some m \<longrightarrow> session_machine_of env machine m"
    show "emits P (bnd (unpack v) body)"
    proof (cases v)
      case None
      then show ?thesis by (simp add: emits_def unpack_def bnd_def raise_def)
    next
      case (Some m)
      with R have "emits P (body m)" using body by blast
      then show ?thesis using Some
        by (intro emits_bnd_cond [where R = "\<lambda>x. x = m"]) (auto simp: unpack_def ret_def)
    qed
  qed
qed

lemma emits_shutdown_round:
  assumes "P (GetName m)" and "P (GetState m)" and "P ConsoleResume" and "P ConsolePowerButton"
    and "P Sleep"
  shows "emits P (shutdown_round env m)"
  unfolding shutdown_round_def using assms by auto

lemma emits_save_round:
  assumes "P (GetName m)" and "P (GetState m)" and "P Sleep"
  shows "emits P (save_round env m)"
  unfolding save_round_def using assms by auto

lemma emits_Machine_init:
  assumes "P (GetName m)" and "P (GetState m)"
  shows "emits P (Machine_init env i m)"
  unfolding Machine_init_def using assms by auto

lemma emits_machines_loop: "emits (\<lambda>c. True) (machines_loop env hs i res)"
proof (rule emitsI)
  fix s
  show "\<exists>new. trace (snd (machines_loop env hs i res s)) = new @ trace s \<and>
          list_all (\<lambda>c. True) new \<and>
          recursion_guard (snd (machines_loop env hs i res s)) = recursion_guard s"
  proof (induction hs arbitrary: i res s)
    case Nil
    show ?case by simp
  next
    case (Cons m ms)
    let ?step = "try_except (bnd (Machine_init env (i + 1 - 1) m) (\<lambda>x. ret (res @ [x])))
                   (\<lambda>exc. ret res)"
    have st: "emits (\<lambda>c. True) ?step"
      by (auto intro: emits_Machine_init)
    obtain r1 s1 where step: "?step s = (r1, s1)" by (cases "?step s")
    from emitsD [OF st, of s] step obtain n1 where t1: "trace s1 = n1 @ trace s"
      and g1: "recursion_guard s1 = recursion_guard s"
      by auto
    show ?case
    proof (cases r1)
      case (Inl e)
      then show ?thesis using step t1 g1 by (simp add: list_all_iff)
    next
      case (Inr res1)
      from Cons.IH [of "i + 1" res1 s1] obtain n2 where
        "trace (snd (machines_loop env ms (i + 1) res1 s1)) = n2 @ trace s1"
        and "recursion_guard (snd (machines_loop env ms (i + 1) res1 s1)) = recursion_guard s1"
        by auto
      then show ?thesis using step t1 g1 Inr
        by (intro exI [of _ "n2 @ n1"]) (simp add: list_all_iff)
    qed
  qed
qed

lemma emits_machines: "emits (\<lambda>c. True) (machines env)"
  unfolding machines_def by (auto intro: emits_machines_loop)

lemma emits_machines_running: "emits (\<lambda>c. True) (machines_running env)"
  unfolding machines_running_def by (auto intro: emits_machines)

lemma guarded_emits:
  assumes guard: "recursion_guard s = 0" and body: "emits P body"
  shows "\<exists>new. trace (snd (guarded body s)) = new @ trace s \<and> list_all P new \<and>
           recursion_guard (snd (guarded body s)) = 0"
proof -
  let ?s1 = "s\<lparr>recursion_guard := 1\<rparr>"
  obtain r s2 where b: "body ?s1 = (r, s2)" by (cases "body ?s1")
  from emitsD [OF body, of ?s1] b obtain new where "trace s2 = new @ trace s"
    and "list_all P new" and "recursion_guard s2 = 1"
    by auto
  then show ?thesis using guard b
    by (intro exI [of _ new]) (simp add: guard_defs with_stmt_def)
qed

lemma emits_shutdown_body:
  "emits (\<lambda>c. True)
     (try_except
          (bnd (raw_machines env) (\<lambda>ms.
           bnd (getitem ms (index machine_surrogate)) (\<lambda>machine.
           bnd (get_name env machine) (\<lambda>n.
           bnd (logging INFO ''Attempting ACPI shutdown for `%s`.'') (\<lambda>u.
           with_session env machine (\<lambda>machine.
             try_except
               (for_range 20 (shutdown_round env machine))
               (\<lambda>exc. bnd (get_name env machine) (\<lambda>n.
                       bnd (logging ERROR ''Failed to ACPI shutdown `%s`: %s'') (\<lambda>u.
                       ret None)))))))))
          (\<lambda>exc. bnd (logging ERROR ''Failed to access machine member: %s'') (\<lambda>u.
                  ret None)))"
  by (auto intro!: emits_with_session emits_shutdown_round)

lemma shutdown_machine_guard:
  assumes "recursion_guard s = 0"
  shows "recursion_guard (snd (shutdown_machine env x s)) = 0"
  unfolding shutdown_machine_def
  using guarded_emits [OF assms emits_shutdown_body] by blast

lemma save_machine_guard:
  assumes "recursion_guard s = 0"
  shows "recursion_guard (snd (save_machine env x s)) = 0"
proof -
  have "\<exists>new. trace (snd (save_machine env x s)) = new @ trace s \<and>
          list_all (\<lambda>c. True) new \<and> recursion_guard (snd (save_machine env x s)) = 0"
    unfolding save_machine_def
    by (rule guarded_emits [OF assms])
       (auto intro!: emits_with_session emits_save_round)
  then show ?thesis by blast
qed

lemma context_step_guard:
  assumes "recursion_guard s = 0"
  shows "recursion_guard (context_step env x s) = 0"
proof (cases x)
  case Machines
  from emitsD [OF emits_machines, of env s] show ?thesis
    using assms Machines by auto
next
  case MachinesRunning
  from emitsD [OF emits_machines_running, of env s] show ?thesis
    using assms MachinesRunning by auto
next
  case (ShutdownMachine m)
  then show ?thesis using shutdown_machine_guard [OF assms] by simp
next
  case (SaveMachine m)
  then show ?thesis using save_machine_guard [OF assms] by simp
qed

lemma context_run_guard:
  assumes "recursion_guard s = 0"
  shows "recursion_guard (context_run env ops s) = 0"
  using assms
proof (induction ops arbitrary: s)
  case Nil
  then show ?case by simp
next
  case (Cons x xs)
  from Cons.IH [OF context_step_guard [OF Cons.prems]] show ?case by simp
qed

lemma context_after_guard: "recursion_guard (context_after env ops) = 0"
  unfolding context_after_def
  by (rule context_run_guard) (simp add: VBContext_init_def)

subsection \<open>Properties of the blocker\<close>


lemma blocker_step_inv:
  assumes "0 \<le> counter b" and "veto (os_calls b) = Some (0 < counter b)"
  shows "0 \<le> counter (blocker_step x b) \<and>
         veto (os_calls (blocker_step x b)) = Some (0 < counter (blocker_step x b))"
  using assms by (cases x) (auto simp: enable_def disable_def Let_def)

lemma blocker_run_inv:
  assumes "0 \<le> counter b" and "veto (os_calls b) = Some (0 < counter b)"
  shows "0 \<le> counter (blocker_run xs b) \<and>
         veto (os_calls (blocker_run xs b)) = Some (0 < counter (blocker_run xs b))"
  using assms
proof (induction xs arbitrary: b)
  case Nil
  then show ?case by simp
next
  case (Cons x xs)
  from blocker_step_inv [OF Cons.prems] show ?case
    by (simp add: Cons.IH)
qed

lemma enable_many:
  assumes "0 < counter b"
  shows "blocker_run (replicate n Enable) b = b\<lparr>counter := counter b + int n\<rparr>"
  using assms
proof (induction n arbitrary: b)
  case 0
  then show ?case by simp
next
  case (Suc n)
  have step: "enable b = b\<lparr>counter := counter b + 1\<rparr>"
    using Suc.prems by (simp add: enable_def)
  have "0 < counter (b\<lparr>counter := counter b + 1\<rparr>)"
    using Suc.prems by simp
  from Suc.IH [OF this] show ?case
    by (simp add: step add.assoc)
qed

lemma disable_idle:
  assumes "counter b = 0"
  shows "blocker_run (replicate m Disable) b = b"
  using assms by (induction m) (simp_all add: disable_def)

lemma disable_many:
  assumes "counter b = int n" and "0 < n" and "n \<le> m"
  shows "blocker_run (replicate m Disable) b =
         b\<lparr>counter := 0, os_calls := ShutdownBlockReasonDestroy # os_calls b\<rparr>"
  using assms
proof (induction n arbitrary: b m)
  case 0
  then show ?case by simp
next
  case (Suc n)
  then obtain m' where m: "m = Suc m'" and le: "n \<le> m'"
    by (cases m) auto
  show ?case
  proof (cases "n = 0")
    case True
    then have one: "counter b = 1" using Suc.prems by simp
    have d: "disable b = b\<lparr>os_calls := ShutdownBlockReasonDestroy # os_calls b, counter := 0\<rparr>"
      using one by (simp add: disable_def)
    have "blocker_run (replicate m' Disable) (disable b) = disable b"
      by (rule disable_idle) (simp add: d)
    then show ?thesis by (simp add: m d)
  next
    case False
    then have d: "disable b = b\<lparr>counter := int n\<rparr>"
      using Suc.prems by (simp add: disable_def)
    have "blocker_run (replicate m' Disable) (b\<lparr>counter := int n\<rparr>) =
          (b\<lparr>counter := int n\<rparr>)\<lparr>counter := 0,
             os_calls := ShutdownBlockReasonDestroy # os_calls (b\<lparr>counter := int n\<rparr>)\<rparr>"
      using False le by (intro Suc.IH) simp_all
    then show ?thesis by (simp add: m d)
  qed
qed

lemma blocker_run_append:
  "blocker_run (xs @ ys) b = blocker_run ys (blocker_run xs b)"
  by (induction xs arbitrary: b) simp_all

text \<open>
  Claim C5. Starting from a fresh blocker: (1) \<open>enable(); enable(); disable(); disable()\<close>
  issues exactly one register followed by one unregister and ends with the counter at
  zero and no veto registered; (2) after any sequence of \<open>enable\<close>/\<open>disable\<close> calls the
  counter is not negative, the calls issued to the operating system never register or
  unregister twice in a row, and a veto is registered exactly when the counter is
  positive; (3) \<open>n \<ge> 1\<close> enables followed by \<open>m \<ge> n\<close> disables (more disables than
  enables included) issue one register and one unregister only.
\<close>

theorem shutdown_blocker_balanced:
  "blocker_run [Enable, Enable, Disable, Disable] ShutdownBlocker_init =
     \<lparr>counter = 0, os_calls = [ShutdownBlockReasonDestroy, ShutdownBlockReasonCreate]\<rparr>
   \<and> veto (os_calls (blocker_run [Enable, Enable, Disable, Disable] ShutdownBlocker_init))
       = Some False
   \<and> (\<forall>ops. 0 \<le> counter (blocker_run ops ShutdownBlocker_init)
          \<and> veto (os_calls (blocker_run ops ShutdownBlocker_init))
              = Some (0 < counter (blocker_run ops ShutdownBlocker_init)))
   \<and> (\<forall>n m. 0 < n \<and> n \<le> m \<longrightarrow>
          blocker_run (replicate n Enable @ replicate m Disable) ShutdownBlocker_init =
            \<lparr>counter = 0, os_calls = [ShutdownBlockReasonDestroy, ShutdownBlockReasonCreate]\<rparr>)"
proof (intro conjI allI impI)
  show "blocker_run [Enable, Enable, Disable, Disable] ShutdownBlocker_init =
     \<lparr>counter = 0, os_calls = [ShutdownBlockReasonDestroy, ShutdownBlockReasonCreate]\<rparr>"
    by (simp add: ShutdownBlocker_init_def enable_def disable_def)
  show "veto (os_calls (blocker_run [Enable, Enable, Disable, Disable] ShutdownBlocker_init))
       = Some False"
    by (simp add: ShutdownBlocker_init_def enable_def disable_def)
next
  fix ops
  have "0 \<le> counter (blocker_run ops ShutdownBlocker_init) \<and>
        veto (os_calls (blocker_run ops ShutdownBlocker_init))
          = Some (0 < counter (blocker_run ops ShutdownBlocker_init))"
    by (rule blocker_run_inv) (simp_all add: ShutdownBlocker_init_def)
  then show "0 \<le> counter (blocker_run ops ShutdownBlocker_init)"
    and "veto (os_calls (blocker_run ops ShutdownBlocker_init))
          = Some (0 < counter (blocker_run ops ShutdownBlocker_init))"
    by simp_all
next
  fix n m :: nat
  assume nm: "0 < n \<and> n \<le> m"
  then obtain k where n: "n = Suc k" by (cases n) auto
  let ?b1 = "\<lparr>counter = 1, os_calls = [ShutdownBlockReasonCreate]\<rparr>"
  have e1: "enable ShutdownBlocker_init = ?b1"
    by (simp add: ShutdownBlocker_init_def enable_def)
  have "blocker_run (replicate k Enable) ?b1 = ?b1\<lparr>counter := counter ?b1 + int k\<rparr>"
    by (rule enable_many) simp
  then have en: "blocker_run (replicate n Enable) ShutdownBlocker_init =
      \<lparr>counter = int n, os_calls = [ShutdownBlockReasonCreate]\<rparr>"
    by (simp add: n e1)
  have "blocker_run (replicate m Disable) \<lparr>counter = int n, os_calls = [ShutdownBlockReasonCreate]\<rparr>
      = \<lparr>counter = int n, os_calls = [ShutdownBlockReasonCreate]\<rparr>\<lparr>counter := 0,
          os_calls := ShutdownBlockReasonDestroy #
            os_calls \<lparr>counter = int n, os_calls = [ShutdownBlockReasonCreate]\<rparr>\<rparr>"
    using nm by (intro disable_many [where n = n]) simp_all
  then show "blocker_run (replicate n Enable @ replicate m Disable) ShutdownBlocker_init =
      \<lparr>counter = 0, os_calls = [ShutdownBlockReasonDestroy, ShutdownBlockReasonCreate]\<rparr>"
    by (simp add: blocker_run_append en)
qed

text \<open>Claim C5 with two enables followed by five disables.\<close>

theorem shutdown_blocker_balanced_witness:
  "0 < (2::nat) \<and> (2::nat) \<le> 5 \<and>
   blocker_run (replicate 2 Enable @ replicate 5 Disable) ShutdownBlocker_init =
     \<lparr>counter = 0, os_calls = [ShutdownBlockReasonDestroy, ShutdownBlockReasonCreate]\<rparr>"
  using shutdown_blocker_balanced by simp

subsection \<open>Results and exceptions of the guarded operations\<close>

lemma bnd_InrE:
  assumes "bnd m f s = (Inr v, s')"
  obtains x s1 where "m s = (Inr x, s1)" and "f x s1 = (Inr v, s')"
  using assms by (auto simp: bnd_def split: prod.splits sum.splits)

lemma try_except_InrE:
  assumes "try_except m h s = (Inr v, s')"
  obtains "m s = (Inr v, s')" | e s1 where "m s = (Inl e, s1)" and "h e s1 = (Inr v, s')"
  using assms by (auto simp: try_except_def split: prod.splits sum.splits)

lemma with_stmt_InrE:
  assumes "with_stmt en ex body s = (Inr v, s')"
  obtains x s1 s2 where "en s = (Inr x, s1)" and "body x s1 = (Inr v, s2)"
  using assms by (auto simp: with_stmt_def split: prod.splits sum.splits)

lemma shutdown_round_Return:
  assumes "shutdown_round env m s = (Inr (Return v), s')"
  shows "\<exists>tr st. vb_state env tr m = Some st \<and> st \<in> set OffMachineStates"
  using assms
  by (auto simp: shutdown_round_def prog_defs split: prod.splits sum.splits option.splits if_splits ctl.splits)

lemma for_range_Some:
  assumes "for_range n body s = (Inr (Some v), s')"
  shows "\<exists>s1 s2. body s1 = (Inr (Return v), s2)"
  using assms
proof (induction n arbitrary: s)
  case 0
  then show ?case by simp
next
  case (Suc n)
  then show ?case
    by (auto split: prod.splits sum.splits ctl.splits)
qed

lemma shutdown_machine_True:
  assumes "shutdown_machine env snap s = (Inr (Some b), s')"
  shows "\<exists>tr m st. vb_state env tr m = Some st \<and> st \<in> set OffMachineStates"
proof -
  from assms obtain m s1 s2 where "for_range 20 (shutdown_round env m) s1 = (Inr (Some b), s2)"
    unfolding shutdown_machine_def guarded_def with_session_def
    by (auto elim!: with_stmt_InrE try_except_InrE bnd_InrE simp: ret_def)
  from for_range_Some [OF this]
  obtain s3 s4 where "shutdown_round env m s3 = (Inr (Return b), s4)"
    by blast
  from shutdown_round_Return [OF this] show ?thesis by blast
qed

lemma try_except_total:
  assumes "\<And>e s. \<exists>v s'. h e s = (Inr v, s')"
  shows "\<exists>v s'. try_except m h s = (Inr v, s')"
proof (cases "m s")
  case (Pair r s1)
  show ?thesis
  proof (cases r)
    case (Inl e)
    with Pair assms [of e s1] show ?thesis by (simp add: try_except_def)
  next
    case (Inr v)
    with Pair show ?thesis by (simp add: try_except_def)
  qed
qed

lemma guarded_total:
  assumes "recursion_guard s = 0"
    and "\<And>s. \<exists>v s'. body s = (Inr v, s')"
  shows "\<exists>v s'. guarded body s = (Inr v, s')"
proof -
  obtain v s' where "body (s\<lparr>recursion_guard := 1\<rparr>) = (Inr v, s')"
    using assms(2) by blast
  then show ?thesis using assms(1)
    by (simp add: guarded_def with_stmt_def RecursionGuard_enter_def RecursionGuard_exit_def)
qed

lemma shutdown_machine_no_exception:
  assumes "recursion_guard s = 0"
  shows "\<exists>v s'. shutdown_machine env snap s = (Inr v, s')"
  unfolding shutdown_machine_def
  by (intro guarded_total assms try_except_total) (simp add: bnd_def logging_def ret_def)

lemma save_machine_no_exception:
  assumes "recursion_guard s = 0"
  shows "\<exists>v s'. save_machine env snap s = (Inr v, s')"
  unfolding save_machine_def
  by (intro guarded_total assms try_except_total) (simp add: bnd_def logging_def ret_def)

lemma shutdown_machine_never_off:
  assumes "recursion_guard s = 0"
    and "\<forall>tr m st. vb_state env tr m = Some st \<longrightarrow> st \<notin> set OffMachineStates"
  shows "fst (shutdown_machine env snap s) = Inr None"
proof -
  obtain v s' where r: "shutdown_machine env snap s = (Inr v, s')"
    using shutdown_machine_no_exception [OF assms(1)] by blast
  have "v = None"
  proof (cases v)
    case None
    then show ?thesis .
  next
    case (Some b)
    with r shutdown_machine_True [of env snap s b s'] assms(2) show ?thesis by blast
  qed
  with r show ?thesis by simp
qed

lemma VBSession_exit_total: "\<exists>s'. VBSession_exit env sess s = (Inr (), s')"
  by (simp add: VBSession_exit_def prog_defs split: prod.splits sum.splits)

lemma shutdown_machine_prologue:
  assumes guard: "recursion_guard s = 0"
    and ms: "vb_machines env (trace s) = Some ms"
    and idx: "0 \<le> index snap" "index snap < int (length ms)"
    and names: "\<forall>tr. vb_name env tr (ms ! nat (index snap)) \<noteq> None \<and>
                vb_name env tr hm \<noteq> None"
    and sess: "\<forall>tr. vb_command env tr GetSessionObject"
    and lock: "\<forall>tr. vb_command env tr (LockMachine (ms ! nat (index snap)))"
    and sm: "\<forall>tr. vb_session_machine env tr = Some hm"
  shows "shutdown_machine env snap s =
    (case try_except (for_range 20 (shutdown_round env hm))
            (\<lambda>exc. bnd (get_name env hm) (\<lambda>n.
                    bnd (logging ERROR ''Failed to ACPI shutdown `%s`: %s'') (\<lambda>u. ret None)))
            (s\<lparr>recursion_guard := 1,
               log := (INFO, ''Attempting ACPI shutdown for `%s`.'') # log s,
               trace := GetSessionMachine # LockMachine (ms ! nat (index snap)) #
                    GetSessionObject # GetName (ms ! nat (index snap)) # GetMachines # trace s\<rparr>) of
       (r, s2) \<Rightarrow>
         (case VBSession_exit env True s2 of
            (u, s3) \<Rightarrow> (r, s3\<lparr>recursion_guard := recursion_guard s3 - 1\<rparr>)))"
proof -
  define nm where "nm tr m = the (vb_name env tr m)" for tr m
  have nm: "\<And>tr. vb_name env tr (ms ! nat (index snap)) = Some (nm tr (ms ! nat (index snap)))"
    "\<And>tr. vb_name env tr hm = Some (nm tr hm)"
    using names by (simp_all add: nm_def)
  have body_total: "\<And>s. \<exists>v s'. try_except (for_range 20 (shutdown_round env hm))
            (\<lambda>exc. bnd (get_name env hm) (\<lambda>n.
                    bnd (logging ERROR ''Failed to ACPI shutdown `%s`: %s'') (\<lambda>u. ret None))) s
          = (Inr v, s')"
    by (rule try_except_total) (simp add: prog_defs nm)
  show ?thesis
    using guard idx
    by (auto simp add: shutdown_machine_def guarded_def with_session_def VBSession_init_def
        VBSession_enter_def VBSession_exit_def RecursionGuard_enter_def RecursionGuard_exit_def
        getitem_def prog_defs ms nm sess lock sm split: prod.splits sum.splits)
qed

lemma VBSession_exit_trace:
  "trace (snd (VBSession_exit env True s)) = UnlockMachine # trace s"
  by (simp add: VBSession_exit_def prog_defs)



lemma for_range_20:
  "for_range 20 body s =
     (case body s of
        (Inl e, s1) \<Rightarrow> (Inl e, s1)
      | (Inr (Return v), s1) \<Rightarrow> (Inr (Some v), s1)
      | (Inr Continue, s1) \<Rightarrow> for_range 19 body s1)"
  using for_range.simps(2) [of 19 body s] by simp






lemma sleeps_simps [simp]:
  "sleeps [] = 0" "sleeps (Sleep # tr) = Suc (sleeps tr)"
  "sleeps (GetMachines # tr) = sleeps tr" "sleeps (GetName m # tr) = sleeps tr"
  "sleeps (GetState m # tr) = sleeps tr" "sleeps (GetSessionObject # tr) = sleeps tr"
  "sleeps (LockMachine m # tr) = sleeps tr" "sleeps (GetSessionMachine # tr) = sleeps tr"
  "sleeps (ConsoleResume # tr) = sleeps tr" "sleeps (ConsolePowerButton # tr) = sleeps tr"
  "sleeps (SaveState m # tr) = sleeps tr" "sleeps (UnlockMachine # tr) = sleeps tr"
  "sleeps (xs @ ys) = sleeps xs + sleeps ys"
  by (simp_all add: sleeps_def)

lemma presses_simps [simp]:
  "presses [] = 0" "presses (Sleep # tr) = presses tr"
  "presses (GetMachines # tr) = presses tr" "presses (GetName m # tr) = presses tr"
  "presses (GetState m # tr) = presses tr" "presses (GetSessionObject # tr) = presses tr"
  "presses (LockMachine m # tr) = presses tr" "presses (GetSessionMachine # tr) = presses tr"
  "presses (ConsoleResume # tr) = Suc (presses tr)"
  "presses (ConsolePowerButton # tr) = Suc (presses tr)"
  "presses (SaveState m # tr) = presses tr" "presses (UnlockMachine # tr) = presses tr"
  "presses (xs @ ys) = presses xs + presses ys"
  by (simp_all add: presses_def)











subsection \<open>Enumeration, and evaluations of the guarded operations\<close>

text \<open>
  With a machine that always runs and an API that never raises, \<open>shutdown_machine\<close>
  presses the power button twenty times, sleeping after each, and then gives up.
\<close>

lemma shutdown_machine_gives_up:
  "length (filter (\<lambda>c. c = ConsolePowerButton)
     (trace (snd (shutdown_machine (vbox_const Running) surrogate0 VBContext_init)))) = 20
   \<and> length (filter (\<lambda>c. c = Sleep)
     (trace (snd (shutdown_machine (vbox_const Running) surrogate0 VBContext_init)))) = 20"
  by (simp add: shutdown_machine_def guard_defs with_session_def VBSession_init_def
      VBSession_enter_def VBSession_exit_def shutdown_round_def getitem_def prog_defs
      vbox_const_def surrogate0_def VBContext_init_def OffMachineStates_def numeral_eq_Suc)

text \<open>
  Whenever the machine the surrogate resolves to reads as an off-state, \<open>save_machine\<close>
  does nothing after that read and returns \<open>None\<close>.
\<close>

lemma save_machine_off:
  assumes guard: "recursion_guard s = 0"
    and ms: "vb_machines env (trace s) = Some ms"
    and idx: "0 \<le> index snap" "index snap < int (length ms)"
    and nm: "vb_name env (GetMachines # trace s) (ms ! nat (index snap)) = Some n"
    and st: "vb_state env (GetName (ms ! nat (index snap)) # GetMachines # trace s)
               (ms ! nat (index snap)) = Some st"
    and off: "st \<in> set OffMachineStates"
  shows "fst (save_machine env snap s) = Inr None \<and>
         trace (snd (save_machine env snap s)) =
           [GetState (ms ! nat (index snap)), GetName (ms ! nat (index snap)), GetMachines]
           @ trace s"
  using guard idx off
  by (simp add: save_machine_def guard_defs getitem_def prog_defs ms nm st)

text \<open>
  Claim C1, evaluated. The API has one machine, which is powered off. \<open>save_machine\<close>
  reads its name and its state and issues no \<open>saveState\<close>; it then falls off its end,
  so the value is \<open>None\<close> and not \<open>True\<close>.
\<close>

theorem save_machine_already_off_returns_None:
  "fst (save_machine (vbox_const PoweredOff) surrogate0 VBContext_init) = Inr None
   \<and> trace (snd (save_machine (vbox_const PoweredOff) surrogate0 VBContext_init)) =
       [GetState 0, GetName 0, GetMachines]"
  by (simp add: save_machine_def guard_defs getitem_def prog_defs vbox_const_def
      surrogate0_def VBContext_init_def OffMachineStates_def)

text \<open>
  Claim C3, evaluated. A guarded operation entered while another one is active raises
  \<open>RuntimeError\<close>; its \<open>__exit__\<close> is not run, since \<open>__enter__\<close> raised. Once the outer
  operation has left, the guard is at \<open>1\<close> instead of \<open>0\<close>, and from a guard at \<open>1\<close> a
  later, non-overlapping \<open>shutdown_machine\<close> or \<open>save_machine\<close> raises as well and leaves
  the guard at \<open>2\<close>.
\<close>

theorem recursion_guard_stays_raised:
  "guarded (guarded (ret ())) VBContext_init =
     (Inl RuntimeError, VBContext_init\<lparr>recursion_guard := 1\<rparr>)
   \<and> shutdown_machine (vbox_const Running) surrogate0 (VBContext_init\<lparr>recursion_guard := 1\<rparr>) =
     (Inl RuntimeError, VBContext_init\<lparr>recursion_guard := 2\<rparr>)
   \<and> save_machine (vbox_const Running) surrogate0 (VBContext_init\<lparr>recursion_guard := 1\<rparr>) =
     (Inl RuntimeError, VBContext_init\<lparr>recursion_guard := 2\<rparr>)"
  by (simp add: shutdown_machine_def save_machine_def guard_defs with_stmt_def ret_def
      VBContext_init_def)

lemma Machine_step:
  assumes "try_except (bnd (Machine_init env i m) (\<lambda>x. ret (res @ [x]))) (\<lambda>exc. ret res) s
             = (r, s1)"
  shows "log s1 = log s \<and>
         ((r = Inr res \<and>
             (vb_name env (trace s) m = None \<or> vb_state env (GetName m # trace s) m = None))
          \<or> (\<exists>n st. r = Inr (res @ [\<lparr>index = i, name = n, state = st\<rparr>]) \<and>
                vb_name env (trace s) m = Some n \<and>
                vb_state env (GetName m # trace s) m = Some st))"
  using assms
  by (auto simp: Machine_init_def prog_defs split: option.splits)

lemma machines_loop_props:
  assumes "machines_loop env hs i res s = (r, s')"
  shows "\<exists>new. r = Inr (res @ new) \<and> log s' = log s \<and>
           sorted_wrt (<) (map index new) \<and>
           (\<forall>x\<in>set new. i \<le> index x \<and> index x < i + int (length hs) \<and>
              (\<exists>tr. vb_name env tr (hs ! nat (index x - i)) = Some (name x)) \<and>
              (\<exists>tr. vb_state env tr (hs ! nat (index x - i)) = Some (state x))) \<and>
           (\<forall>j<length hs. i + int j \<notin> index ` set new \<longrightarrow>
              (\<exists>tr. vb_name env tr (hs ! j) = None \<or> vb_state env tr (hs ! j) = None))"
  using assms
proof (induction hs arbitrary: i res s)
  case Nil
  then show ?case by (intro exI [of _ "[]"]) auto
next
  case (Cons m ms)
  obtain r1 s1 where step:
    "try_except (bnd (Machine_init env (i + 1 - 1) m) (\<lambda>x. ret (res @ [x]))) (\<lambda>exc. ret res) s
       = (r1, s1)"
    by (cases "try_except (bnd (Machine_init env (i + 1 - 1) m) (\<lambda>x. ret (res @ [x])))
                 (\<lambda>exc. ret res) s")
  from Machine_step [OF step]
  have log1: "log s1 = log s"
    and alt: "(r1 = Inr res \<and>
             (vb_name env (trace s) m = None \<or> vb_state env (GetName m # trace s) m = None))
          \<or> (\<exists>n st. r1 = Inr (res @ [\<lparr>index = i, name = n, state = st\<rparr>]) \<and>
                vb_name env (trace s) m = Some n \<and>
                vb_state env (GetName m # trace s) m = Some st)"
    by simp_all
  from alt obtain res1 where r1: "r1 = Inr res1" by auto
  from Cons.prems step r1 have rest: "machines_loop env ms (i + 1) res1 s1 = (r, s')"
    by simp
  from Cons.IH [OF rest] obtain new1 where
    r: "r = Inr (res1 @ new1)" and logs: "log s' = log s1"
    and srt: "sorted_wrt (<) (map index new1)"
    and mem: "\<forall>x\<in>set new1. i + 1 \<le> index x \<and> index x < i + 1 + int (length ms) \<and>
              (\<exists>tr. vb_name env tr (ms ! nat (index x - (i + 1))) = Some (name x)) \<and>
              (\<exists>tr. vb_state env tr (ms ! nat (index x - (i + 1))) = Some (state x))"
    and skip: "\<forall>j<length ms. i + 1 + int j \<notin> index ` set new1 \<longrightarrow>
              (\<exists>tr. vb_name env tr (ms ! j) = None \<or> vb_state env tr (ms ! j) = None)"
    by blast
  have shift: "(m # ms) ! nat (index x - i) = ms ! nat (index x - (i + 1))"
    if "i + 1 \<le> index x" for x :: Machine
  proof -
    from that have "nat (index x - i) = Suc (nat (index x - (i + 1)))" by simp
    then show ?thesis by simp
  qed
  have mem': "\<forall>x\<in>set new1. i \<le> index x \<and> index x < i + int (length (m # ms)) \<and>
              (\<exists>tr. vb_name env tr ((m # ms) ! nat (index x - i)) = Some (name x)) \<and>
              (\<exists>tr. vb_state env tr ((m # ms) ! nat (index x - i)) = Some (state x))"
  proof
    fix x assume x: "x \<in> set new1"
    with mem have a: "i + 1 \<le> index x" and b: "index x < i + 1 + int (length ms)"
      and c: "\<exists>tr. vb_name env tr (ms ! nat (index x - (i + 1))) = Some (name x)"
      and d: "\<exists>tr. vb_state env tr (ms ! nat (index x - (i + 1))) = Some (state x)"
      by auto
    from a b c d shift [OF a]
    show "i \<le> index x \<and> index x < i + int (length (m # ms)) \<and>
              (\<exists>tr. vb_name env tr ((m # ms) ! nat (index x - i)) = Some (name x)) \<and>
              (\<exists>tr. vb_state env tr ((m # ms) ! nat (index x - i)) = Some (state x))"
      by simp
  qed
  have above: "\<forall>x\<in>set new1. i < index x" using mem by auto
  have skip': "\<exists>tr. vb_name env tr ((m # ms) ! j) = None \<or> vb_state env tr ((m # ms) ! j) = None"
    if "j < length (m # ms)" and "j \<noteq> 0" and "i + int j \<notin> index ` set new1" for j
  proof -
    from that obtain k where j: "j = Suc k" and k: "k < length ms" by (cases j) auto
    from that(3) j have "i + 1 + int k \<notin> index ` set new1" by (simp add: add.assoc)
    with skip k have "\<exists>tr. vb_name env tr (ms ! k) = None \<or> vb_state env tr (ms ! k) = None"
      by blast
    then show ?thesis by (simp add: j)
  qed
  from alt show ?case
  proof
    assume f: "r1 = Inr res \<and>
             (vb_name env (trace s) m = None \<or> vb_state env (GetName m # trace s) m = None)"
    with r1 have res1: "res1 = res" by simp
    have fault: "\<exists>tr. vb_name env tr m = None \<or> vb_state env tr m = None"
      using f by blast
    have "\<forall>j<length (m # ms). i + int j \<notin> index ` set new1 \<longrightarrow>
              (\<exists>tr. vb_name env tr ((m # ms) ! j) = None \<or> vb_state env tr ((m # ms) ! j) = None)"
    proof (intro allI impI)
      fix j assume "j < length (m # ms)" and "i + int j \<notin> index ` set new1"
      then show "\<exists>tr. vb_name env tr ((m # ms) ! j) = None \<or> vb_state env tr ((m # ms) ! j) = None"
        using fault skip' by (cases "j = 0") auto
    qed
    with r res1 logs log1 srt mem' show ?thesis
      by (intro exI [of _ new1]) simp
  next
    assume "\<exists>n st. r1 = Inr (res @ [\<lparr>index = i, name = n, state = st\<rparr>]) \<and>
                vb_name env (trace s) m = Some n \<and>
                vb_state env (GetName m # trace s) m = Some st"
    then obtain n st where r1': "r1 = Inr (res @ [\<lparr>index = i, name = n, state = st\<rparr>])"
      and nm: "vb_name env (trace s) m = Some n"
      and sm: "vb_state env (GetName m # trace s) m = Some st"
      by blast
    let ?x = "\<lparr>index = i, name = n, state = st\<rparr>"
    from r1 r1' have res1: "res1 = res @ [?x]" by simp
    have x_ok: "i \<le> index ?x \<and> index ?x < i + int (length (m # ms)) \<and>
              (\<exists>tr. vb_name env tr ((m # ms) ! nat (index ?x - i)) = Some (name ?x)) \<and>
              (\<exists>tr. vb_state env tr ((m # ms) ! nat (index ?x - i)) = Some (state ?x))"
      using nm sm by auto
    have srt': "sorted_wrt (<) (map index (?x # new1))"
      using srt above by auto
    have skip'': "\<forall>j<length (m # ms). i + int j \<notin> index ` set (?x # new1) \<longrightarrow>
              (\<exists>tr. vb_name env tr ((m # ms) ! j) = None \<or> vb_state env tr ((m # ms) ! j) = None)"
    proof (intro allI impI)
      fix j assume j: "j < length (m # ms)" and n: "i + int j \<notin> index ` set (?x # new1)"
      from n have "j \<noteq> 0" and "i + int j \<notin> index ` set new1" by auto
      with j show "\<exists>tr. vb_name env tr ((m # ms) ! j) = None \<or> vb_state env tr ((m # ms) ! j) = None"
        by (rule skip')
    qed
    have mem'': "\<forall>x\<in>set (?x # new1). i \<le> index x \<and> index x < i + int (length (m # ms)) \<and>
              (\<exists>tr. vb_name env tr ((m # ms) ! nat (index x - i)) = Some (name x)) \<and>
              (\<exists>tr. vb_state env tr ((m # ms) ! nat (index x - i)) = Some (state x))"
      using x_ok mem' by (simp del: length_Cons nth_Cons_Suc)
    from r res1 logs log1 srt' mem'' skip'' show ?thesis
      by (intro exI [of _ "?x # new1"]) simp
  qed
qed

lemma machines_props:
  assumes "vb_machines env (trace s) = Some hs"
  shows "\<exists>res s'. machines env s = (Inr res, s') \<and> log s' = log s \<and>
           sorted_wrt (<) (map index res) \<and>
           (\<forall>x\<in>set res. 0 \<le> index x \<and> index x < int (length hs) \<and>
              (\<exists>tr. vb_name env tr (hs ! nat (index x)) = Some (name x)) \<and>
              (\<exists>tr. vb_state env tr (hs ! nat (index x)) = Some (state x))) \<and>
           (\<forall>j<length hs. int j \<notin> index ` set res \<longrightarrow>
              (\<exists>tr. vb_name env tr (hs ! j) = None \<or> vb_state env tr (hs ! j) = None))"
proof -
  let ?s1 = "s\<lparr>trace := GetMachines # trace s\<rparr>"
  obtain r s' where loop: "machines_loop env hs 0 [] ?s1 = (r, s')"
    by (cases "machines_loop env hs 0 [] ?s1")
  have m: "machines env s = (r, s')"
    using assms loop by (simp add: machines_def prog_defs)
  from machines_loop_props [OF loop] m show ?thesis
    by auto
qed

lemma resolve_first:
  assumes guard: "recursion_guard s = 0"
    and ms: "vb_machines env (trace s) = Some hs"
    and idx: "0 \<le> i" "i < int (length hs)"
    and K: "\<And>m n. extends (K m n)"
    and H: "\<And>e. extends (H e)"
  shows "\<exists>rest. trace (snd (guarded (try_except
            (bnd (raw_machines env) (\<lambda>ms.
             bnd (getitem ms i) (\<lambda>machine.
             bnd (get_name env machine) (K machine)))) H) s)) =
          rest @ [GetName (hs ! nat i), GetMachines] @ trace s"
proof -
  let ?h = "hs ! nat i"
  let ?s2 = "s\<lparr>recursion_guard := 1, trace := GetName ?h # GetMachines # trace s\<rparr>"
  let ?body = "try_except
            (bnd (raw_machines env) (\<lambda>ms.
             bnd (getitem ms i) (\<lambda>machine.
             bnd (get_name env machine) (K machine)))) H"
  have "\<exists>tr. trace (snd (?body (s\<lparr>recursion_guard := 1\<rparr>))) = tr @ trace ?s2"
  proof (cases "vb_name env (GetMachines # trace s) ?h")
    case None
    then have "?body (s\<lparr>recursion_guard := 1\<rparr>) = H ApiError ?s2"
      using ms idx by (simp add: try_except_def bnd_def raw_machines_def get_name_def api_def
          getitem_def ret_def)
    then show ?thesis using extendsD [OF H, of ApiError ?s2] by simp
  next
    case (Some n)
    then have "?body (s\<lparr>recursion_guard := 1\<rparr>) = try_except (K ?h n) H ?s2"
      using ms idx by (simp add: try_except_def bnd_def raw_machines_def get_name_def api_def
          getitem_def ret_def)
    moreover have "extends (try_except (K ?h n) H)"
      using K H by auto
    from extendsD [OF this, of ?s2]
    have "\<exists>tr. trace (snd (try_except (K ?h n) H ?s2)) = tr @ trace ?s2" .
    ultimately show ?thesis by simp
  qed
  then obtain tr where tr: "trace (snd (?body (s\<lparr>recursion_guard := 1\<rparr>))) = tr @ trace ?s2"
    by blast
  obtain r s3 where b: "?body (s\<lparr>recursion_guard := 1\<rparr>) = (r, s3)"
    by (cases "?body (s\<lparr>recursion_guard := 1\<rparr>)")
  have "guarded ?body s = (r, s3\<lparr>recursion_guard := recursion_guard s3 - 1\<rparr>)"
    using guard b by (simp add: guard_defs with_stmt_def)
  then have "trace (snd (guarded ?body s)) = tr @ [GetName ?h, GetMachines] @ trace s"
    using tr b by simp
  then show ?thesis by blast
qed

lemma shutdown_machine_resolves:
  assumes "recursion_guard s = 0" and "vb_machines env (trace s) = Some hs"
    and "0 \<le> index x" and "index x < int (length hs)"
  shows "\<exists>rest. trace (snd (shutdown_machine env x s)) =
           rest @ [GetName (hs ! nat (index x)), GetMachines] @ trace s"
  unfolding shutdown_machine_def
  by (rule resolve_first [OF assms]) auto

lemma save_machine_resolves:
  assumes "recursion_guard s = 0" and "vb_machines env (trace s) = Some hs"
    and "0 \<le> index x" and "index x < int (length hs)"
  shows "\<exists>rest. trace (snd (save_machine env x s)) =
           rest @ [GetName (hs ! nat (index x)), GetMachines] @ trace s"
  unfolding save_machine_def
  by (rule resolve_first [OF assms]) (auto split: option.splits)

text \<open>
  Claim C7 as stated fails: with two machines, the first of which raises when its name
  is read, \<open>machines\<close> returns the surrogate of the second one and logs nothing.
\<close>

theorem machines_fault_not_logged:
  "vb_name vbox_unreadable [GetMachines] 0 = None
   \<and> machines vbox_unreadable VBContext_init =
       (Inr [\<lparr>index = 1, name = ''vm'', state = Running\<rparr>],
        \<lparr>trace = [GetState 1, GetName 1, GetName 0, GetMachines], log = [],
           recursion_guard = 0\<rparr>)"
  by (simp add: machines_def Machine_init_def prog_defs vbox_unreadable_def vbox_const_def
      VBContext_init_def)

text \<open>
  Claim C7, amended. Once the raw list \<open>hs\<close> is obtained, \<open>machines\<close> returns a list and
  raises nothing, and it leaves the log as it was (a fault of one machine is caught
  silently). Every machine whose name and state can always be read has a surrogate in
  the result, and every surrogate carries an index inside the raw list and a name and a
  state read from the machine at that index.
\<close>

theorem machines_skips_only_faulting:
  assumes "vb_machines env (trace s) = Some hs"
  shows "\<exists>res s'. machines env s = (Inr res, s') \<and> log s' = log s \<and>
           (\<forall>j<length hs.
              (\<forall>tr. vb_name env tr (hs ! j) \<noteq> None \<and> vb_state env tr (hs ! j) \<noteq> None)
              \<longrightarrow> int j \<in> index ` set res) \<and>
           (\<forall>x\<in>set res. 0 \<le> index x \<and> index x < int (length hs) \<and>
              (\<exists>tr. vb_name env tr (hs ! nat (index x)) = Some (name x)) \<and>
              (\<exists>tr. vb_state env tr (hs ! nat (index x)) = Some (state x)))"
proof -
  from machines_props [OF assms] obtain res s' where
    m: "machines env s = (Inr res, s')" and l: "log s' = log s"
    and mem: "\<forall>x\<in>set res. 0 \<le> index x \<and> index x < int (length hs) \<and>
              (\<exists>tr. vb_name env tr (hs ! nat (index x)) = Some (name x)) \<and>
              (\<exists>tr. vb_state env tr (hs ! nat (index x)) = Some (state x))"
    and skip: "\<forall>j<length hs. int j \<notin> index ` set res \<longrightarrow>
              (\<exists>tr. vb_name env tr (hs ! j) = None \<or> vb_state env tr (hs ! j) = None)"
    by blast
  have "\<forall>j<length hs.
              (\<forall>tr. vb_name env tr (hs ! j) \<noteq> None \<and> vb_state env tr (hs ! j) \<noteq> None)
              \<longrightarrow> int j \<in> index ` set res"
    using skip by blast
  with m l mem show ?thesis by blast
qed

text \<open>
  The amended claim at the interface with an unreadable first machine: the second
  machine is reported.
\<close>

theorem machines_skips_only_faulting_witness:
  "\<exists>res s'. machines vbox_unreadable VBContext_init = (Inr res, s') \<and>
      log s' = log VBContext_init \<and> 1 \<in> index ` set res"
proof -
  have "vb_machines vbox_unreadable (trace VBContext_init) = Some [0, 1]"
    by (simp add: vbox_unreadable_def)
  from machines_skips_only_faulting [OF this] obtain res s' where
    m: "machines vbox_unreadable VBContext_init = (Inr res, s')"
    and l: "log s' = log VBContext_init"
    and all: "\<forall>j<length [0::nat, 1].
              (\<forall>tr. vb_name vbox_unreadable tr ([0, 1] ! j) \<noteq> None \<and>
                    vb_state vbox_unreadable tr ([0, 1] ! j) \<noteq> None)
              \<longrightarrow> int j \<in> index ` set res"
    by blast
  have "(1::nat) < length [0::nat, 1]" by simp
  with all have "(\<forall>tr. vb_name vbox_unreadable tr ([0, 1] ! 1) \<noteq> None \<and>
                    vb_state vbox_unreadable tr ([0, 1] ! 1) \<noteq> None)
              \<longrightarrow> int 1 \<in> index ` set res"
    by blast
  then have "1 \<in> index ` set res"
    by (simp add: vbox_unreadable_def vbox_const_def)
  with m l show ?thesis by blast
qed

lemma list_all_targets_GetMachines [simp]: "targets env h GetMachines"
  by (simp add: targets_def)

lemma resolve_targets:
  assumes ms: "vb_machines env (trace s) = Some hs"
    and idx: "0 \<le> i" "i < int (length hs)"
    and K: "emits (targets env (hs ! nat i)) (K (hs ! nat i))"
    and H: "\<And>e. emits (targets env (hs ! nat i)) (H e)"
  shows "\<exists>new. trace (snd (guarded (try_except
            (bnd (raw_machines env) (\<lambda>ms. bnd (getitem ms i) K)) H) s)) = new @ trace s \<and>
          list_all (targets env (hs ! nat i)) new"
proof (cases "recursion_guard s + 1 > 1")
  case True
  then show ?thesis
    by (intro exI [of _ "[]"]) (simp add: guard_defs with_stmt_def)
next
  case False
  let ?h = "hs ! nat i"
  let ?s1 = "s\<lparr>recursion_guard := recursion_guard s + 1\<rparr>"
  let ?sA = "s\<lparr>recursion_guard := recursion_guard s + 1, trace := GetMachines # trace s\<rparr>"
  let ?body = "try_except (bnd (raw_machines env) (\<lambda>ms. bnd (getitem ms i) K)) H"
  have eq: "?body ?s1 = try_except (K ?h) H ?sA"
    using ms idx by (simp add: try_except_def bnd_def raw_machines_def api_def getitem_def
        ret_def)
  have "emits (targets env ?h) (try_except (K ?h) H)"
    using K H by auto
  from emitsD [OF this, of ?sA] obtain new where
    t: "trace (snd (try_except (K ?h) H ?sA)) = new @ trace ?sA"
    and p: "list_all (targets env ?h) new"
    by auto
  obtain r s3 where b: "?body ?s1 = (r, s3)" by (cases "?body ?s1")
  have "guarded ?body s = (r, s3\<lparr>recursion_guard := recursion_guard s3 - 1\<rparr>)"
    using False b by (simp add: guard_defs with_stmt_def)
  then have "trace (snd (guarded ?body s)) = (new @ [GetMachines]) @ trace s"
    using t b eq by simp
  moreover have "list_all (targets env ?h) (new @ [GetMachines])"
    using p by simp
  ultimately show ?thesis by blast
qed

lemma targets_own [simp]:
  "targets env h (GetName h)" "targets env h (GetState h)" "targets env h (LockMachine h)"
  "targets env h GetSessionObject" "targets env h GetSessionMachine"
  "targets env h UnlockMachine" "targets env h Sleep" "targets env h ConsoleResume"
  "targets env h ConsolePowerButton"
  by (simp_all add: targets_def)

lemma targets_session [simp]:
  assumes "session_machine_of env h m"
  shows "targets env h (GetName m)" "targets env h (GetState m)" "targets env h (SaveState m)"
  using assms by (simp_all add: targets_def)

lemma shutdown_machine_targets:
  assumes "vb_machines env (trace s) = Some hs"
    and "0 \<le> index x" and "index x < int (length hs)"
  shows "\<exists>new. trace (snd (shutdown_machine env x s)) = new @ trace s \<and>
           list_all (targets env (hs ! nat (index x))) new"
  unfolding shutdown_machine_def
  by (rule resolve_targets [OF assms])
     (auto intro!: emits_with_session emits_shutdown_round)

lemma save_machine_targets:
  assumes "vb_machines env (trace s) = Some hs"
    and "0 \<le> index x" and "index x < int (length hs)"
  shows "\<exists>new. trace (snd (save_machine env x s)) = new @ trace s \<and>
           list_all (targets env (hs ! nat (index x))) new"
  unfolding save_machine_def
  by (rule resolve_targets [OF assms])
     (auto intro!: emits_with_session emits_save_round)

lemma passesI: "trace (snd (m s)) = z @ t \<Longrightarrow> passes m s t"
  unfolding passes_def by blast

lemma passes_extends: "extends m \<Longrightarrow> passes m s (trace s)"
  unfolding passes_def extends_def by blast

lemma passes_command: "passes (command env c) s (c # trace s)"
  by (simp add: passes_def prog_defs)

lemma passes_bnd_first:
  assumes "passes m s t" and f: "\<And>x. extends (f x)"
  shows "passes (bnd m f) s t"
proof -
  obtain r s1 where ms: "m s = (r, s1)" by (cases "m s")
  from assms(1) ms obtain z where z: "trace s1 = z @ t" by (auto simp: passes_def)
  show ?thesis
  proof (cases r)
    case (Inl e)
    then show ?thesis using ms z by (simp add: passes_def bnd_def)
  next
    case (Inr v)
    from extendsD [OF f, of v s1] obtain y where "trace (snd (f v s1)) = y @ trace s1"
      by blast
    then show ?thesis using ms z Inr by (simp add: passes_def bnd_def)
  qed
qed

lemma passes_try_except:
  assumes "passes m s t" and h: "\<And>e. extends (h e)"
  shows "passes (try_except m h) s t"
proof -
  obtain r s1 where ms: "m s = (r, s1)" by (cases "m s")
  from assms(1) ms obtain z where z: "trace s1 = z @ t" by (auto simp: passes_def)
  show ?thesis
  proof (cases r)
    case (Inr v)
    then show ?thesis using ms z by (simp add: passes_def try_except_def)
  next
    case (Inl e)
    from extendsD [OF h, of e s1] obtain y where "trace (snd (h e s1)) = y @ trace s1"
      by blast
    then show ?thesis using ms z Inl by (simp add: passes_def try_except_def)
  qed
qed

lemma passes_after_prologue:
  assumes eq: "X = (case inner s1 of
                     (r, s2) \<Rightarrow>
                       (case VBSession_exit env True s2 of
                          (u, s3) \<Rightarrow> (r, s3\<lparr>recursion_guard := recursion_guard s3 - 1\<rparr>)))"
    and p: "passes inner s1 t"
  shows "\<exists>z. trace (snd X) = z @ t"
proof -
  obtain r s2 where i: "inner s1 = (r, s2)" by (cases "inner s1")
  from p i obtain z where z: "trace s2 = z @ t" by (auto simp: passes_def)
  obtain u s3 where ex: "VBSession_exit env True s2 = (u, s3)"
    by (cases "VBSession_exit env True s2")
  have "trace s3 = UnlockMachine # trace s2"
    using VBSession_exit_trace [of env s2] ex by simp
  then show ?thesis using eq i ex z by simp
qed

lemma shutdown_machine_locks:
  assumes guard: "recursion_guard s = 0"
    and ms: "vb_machines env (trace s) = Some ms"
    and idx: "0 \<le> index snap" "index snap < int (length ms)"
    and names: "\<forall>tr. vb_name env tr (ms ! nat (index snap)) \<noteq> None \<and>
                vb_name env tr hm \<noteq> None"
    and sess: "\<forall>tr. vb_command env tr GetSessionObject"
    and lock: "\<forall>tr. vb_command env tr (LockMachine (ms ! nat (index snap)))"
    and sm: "\<forall>tr. vb_session_machine env tr = Some hm"
  shows "\<exists>rest. trace (snd (shutdown_machine env snap s)) =
           rest @ [GetSessionMachine, LockMachine (ms ! nat (index snap)), GetSessionObject,
                   GetName (ms ! nat (index snap)), GetMachines] @ trace s"
proof -
  let ?h = "ms ! nat (index snap)"
  let ?H = "\<lambda>exc. bnd (get_name env hm) (\<lambda>n.
                    bnd (logging ERROR ''Failed to ACPI shutdown `%s`: %s'') (\<lambda>u. ret None))"
  let ?s1 = "s\<lparr>recursion_guard := 1,
               log := (INFO, ''Attempting ACPI shutdown for `%s`.'') # log s,
               trace := GetSessionMachine # LockMachine ?h #
                    GetSessionObject # GetName ?h # GetMachines # trace s\<rparr>"
  have "extends (try_except (for_range 20 (shutdown_round env hm)) ?H)"
    by auto
  from passes_extends [OF this, of ?s1]
  have p: "passes (try_except (for_range 20 (shutdown_round env hm)) ?H) ?s1
             ([GetSessionMachine, LockMachine ?h, GetSessionObject, GetName ?h, GetMachines]
                @ trace s)"
    by simp
  from passes_after_prologue
    [OF shutdown_machine_prologue [OF guard ms idx names sess lock sm] p]
  show ?thesis .
qed

lemma save_machine_prologue:
  assumes guard: "recursion_guard s = 0"
    and ms: "vb_machines env (trace s) = Some ms"
    and idx: "0 \<le> index snap" "index snap < int (length ms)"
    and names: "\<forall>tr. vb_name env tr (ms ! nat (index snap)) \<noteq> None \<and>
                vb_name env tr hm \<noteq> None"
    and sess: "\<forall>tr. vb_command env tr GetSessionObject"
    and lock: "\<forall>tr. vb_command env tr (LockMachine (ms ! nat (index snap)))"
    and sm: "\<forall>tr. vb_session_machine env tr = Some hm"
    and st: "vb_state env (GetName (ms ! nat (index snap)) # GetMachines # trace s)
               (ms ! nat (index snap)) = Some st0"
    and noff: "st0 \<notin> set OffMachineStates"
  shows "save_machine env snap s =
    (case try_except
            (bnd (command env (SaveState hm)) (\<lambda>u.
             bnd (for_range 20 (save_round env hm)) (\<lambda>r.
             case r of
               Some v \<Rightarrow> ret (Some v)
             | None \<Rightarrow>
                 bnd (get_name env hm) (\<lambda>n.
                 bnd (logging ERROR
                        ''Failed to save `%s`: Took too much time to save !'') (\<lambda>u.
                 ret None)))))
            (\<lambda>exc. bnd (get_name env hm) (\<lambda>n.
                    bnd (logging ERROR ''Failed to save `%s`: %s'') (\<lambda>u. ret None)))
            (s\<lparr>recursion_guard := 1,
               log := (INFO, ''Saving machine `%s` ... '') #
                      (INFO, ''Checking machine `%s` ... '') # log s,
               trace := GetSessionMachine # LockMachine (ms ! nat (index snap)) #
                    GetSessionObject # GetName (ms ! nat (index snap)) #
                    GetState (ms ! nat (index snap)) # GetName (ms ! nat (index snap)) #
                    GetMachines # trace s\<rparr>) of
       (r, s2) \<Rightarrow>
         (case VBSession_exit env True s2 of
            (u, s3) \<Rightarrow> (r, s3\<lparr>recursion_guard := recursion_guard s3 - 1\<rparr>)))"
proof -
  define nm where "nm tr m = the (vb_name env tr m)" for tr m
  have nm: "\<And>tr. vb_name env tr (ms ! nat (index snap)) = Some (nm tr (ms ! nat (index snap)))"
    "\<And>tr. vb_name env tr hm = Some (nm tr hm)"
    using names by (simp_all add: nm_def)
  show ?thesis
    using guard idx noff
    by (auto simp add: save_machine_def guarded_def with_session_def VBSession_init_def
        VBSession_enter_def VBSession_exit_def RecursionGuard_enter_def RecursionGuard_exit_def
        getitem_def prog_defs ms nm sess lock sm st split: prod.splits sum.splits)
qed

lemma save_machine_saves:
  assumes guard: "recursion_guard s = 0"
    and ms: "vb_machines env (trace s) = Some ms"
    and idx: "0 \<le> index snap" "index snap < int (length ms)"
    and names: "\<forall>tr. vb_name env tr (ms ! nat (index snap)) \<noteq> None \<and>
                vb_name env tr hm \<noteq> None"
    and sess: "\<forall>tr. vb_command env tr GetSessionObject"
    and lock: "\<forall>tr. vb_command env tr (LockMachine (ms ! nat (index snap)))"
    and sm: "\<forall>tr. vb_session_machine env tr = Some hm"
    and st: "vb_state env (GetName (ms ! nat (index snap)) # GetMachines # trace s)
               (ms ! nat (index snap)) = Some st0"
    and noff: "st0 \<notin> set OffMachineStates"
  shows "\<exists>rest. trace (snd (save_machine env snap s)) =
           rest @ [SaveState hm, GetSessionMachine, LockMachine (ms ! nat (index snap)),
                   GetSessionObject, GetName (ms ! nat (index snap)),
                   GetState (ms ! nat (index snap)), GetName (ms ! nat (index snap)),
                   GetMachines] @ trace s"
proof -
  let ?h = "ms ! nat (index snap)"
  let ?rest = "\<lambda>u::unit. bnd (for_range 20 (save_round env hm)) (\<lambda>r.
             case r of
               Some v \<Rightarrow> ret (Some v)
             | None \<Rightarrow>
                 bnd (get_name env hm) (\<lambda>n.
                 bnd (logging ERROR
                        ''Failed to save `%s`: Took too much time to save !'') (\<lambda>u.
                 ret None)))"
  let ?H = "\<lambda>exc. bnd (get_name env hm) (\<lambda>n.
                    bnd (logging ERROR ''Failed to save `%s`: %s'') (\<lambda>u. ret (None :: bool option)))"
  let ?s1 = "s\<lparr>recursion_guard := 1,
               log := (INFO, ''Saving machine `%s` ... '') #
                      (INFO, ''Checking machine `%s` ... '') # log s,
               trace := GetSessionMachine # LockMachine ?h #
                    GetSessionObject # GetName ?h # GetState ?h # GetName ?h #
                    GetMachines # trace s\<rparr>"
  have r: "\<And>u. extends (?rest u)"
    by (auto split: option.splits)
  have h: "\<And>e. extends (?H e)"
    by auto
  have "passes (bnd (command env (SaveState hm)) ?rest) ?s1 (SaveState hm # trace ?s1)"
    by (rule passes_bnd_first [OF passes_command r])
  from passes_try_except [OF this h]
  have p: "passes (try_except (bnd (command env (SaveState hm)) ?rest) ?H) ?s1
             ([SaveState hm, GetSessionMachine, LockMachine ?h, GetSessionObject, GetName ?h,
               GetState ?h, GetName ?h, GetMachines] @ trace s)"
    by simp
  from passes_after_prologue
    [OF save_machine_prologue [OF guard ms idx names sess lock sm st noff] p]
  show ?thesis .
qed

text \<open>
  Claim C9. For every surrogate \<open>x\<close> returned by \<open>machines\<close> over the raw list \<open>hs\<close>: its
  index is a position of \<open>hs\<close>, its name and state were read from the machine at that
  position, and the indices of the result increase strictly (skipped machines leave
  gaps). Indexing \<open>hs\<close> with \<open>x.index\<close> yields that machine \<open>h\<close>.
  Whenever \<open>shutdown_machine\<close> or \<open>save_machine\<close> obtains the same raw list, everything it
  does is aimed at \<open>h\<close>: it locks no machine but \<open>h\<close>, it reads names and states only of
  \<open>h\<close> and of the machine of a session locked on \<open>h\<close>, and it saves the state only of such
  a session's machine.
  On a context that was created by \<open>VBContext()\<close> and has since served any calls, the first
  machine either operation touches after reading the list is \<open>h\<close>; and when the names can
  be read and the session opens with the machine \<open>hm\<close>, \<open>shutdown_machine\<close> locks \<open>h\<close>, and
  \<open>save_machine\<close>, if \<open>h\<close> does not read as an off-state, checks the state of \<open>h\<close>, locks
  \<open>h\<close> and saves the state of \<open>hm\<close>.
\<close>

theorem snapshot_index_is_raw_position:
  assumes "vb_machines env (trace s) = Some hs"
    and "machines env s = (Inr res, s')"
    and "x \<in> set res"
  shows "0 \<le> index x \<and> index x < int (length hs)
         \<and> (\<exists>tr. vb_name env tr (hs ! nat (index x)) = Some (name x))
         \<and> (\<exists>tr. vb_state env tr (hs ! nat (index x)) = Some (state x))
         \<and> sorted_wrt (<) (map index res)
         \<and> getitem hs (index x) s' = (Inr (hs ! nat (index x)), s')
         \<and> (\<forall>s2. vb_machines env (trace s2) = Some hs \<longrightarrow>
               (\<exists>new. trace (snd (shutdown_machine env x s2)) = new @ trace s2 \<and>
                      list_all (targets env (hs ! nat (index x))) new)
             \<and> (\<exists>new. trace (snd (save_machine env x s2)) = new @ trace s2 \<and>
                      list_all (targets env (hs ! nat (index x))) new))
         \<and> (\<forall>ops. vb_machines env (trace (context_after env ops)) = Some hs \<longrightarrow>
               (\<exists>rest. trace (snd (shutdown_machine env x (context_after env ops))) =
                  rest @ [GetName (hs ! nat (index x)), GetMachines]
                       @ trace (context_after env ops))
             \<and> (\<exists>rest. trace (snd (save_machine env x (context_after env ops))) =
                  rest @ [GetName (hs ! nat (index x)), GetMachines]
                       @ trace (context_after env ops))
             \<and> (\<forall>hm. (\<forall>tr. vb_name env tr (hs ! nat (index x)) \<noteq> None \<and>
                            vb_name env tr hm \<noteq> None)
                     \<and> (\<forall>tr. vb_command env tr GetSessionObject)
                     \<and> (\<forall>tr. vb_command env tr (LockMachine (hs ! nat (index x))))
                     \<and> (\<forall>tr. vb_session_machine env tr = Some hm)
                  \<longrightarrow>
                    (\<exists>rest. trace (snd (shutdown_machine env x (context_after env ops))) =
                       rest @ [GetSessionMachine, LockMachine (hs ! nat (index x)),
                               GetSessionObject, GetName (hs ! nat (index x)), GetMachines]
                            @ trace (context_after env ops))
                  \<and> (\<forall>st0. vb_state env
                              (GetName (hs ! nat (index x)) # GetMachines #
                                 trace (context_after env ops))
                              (hs ! nat (index x)) = Some st0
                            \<and> st0 \<notin> set OffMachineStates
                        \<longrightarrow>
                          (\<exists>rest. trace (snd (save_machine env x (context_after env ops))) =
                             rest @ [SaveState hm, GetSessionMachine,
                                     LockMachine (hs ! nat (index x)), GetSessionObject,
                                     GetName (hs ! nat (index x)),
                                     GetState (hs ! nat (index x)),
                                     GetName (hs ! nat (index x)), GetMachines]
                                  @ trace (context_after env ops)))))"
proof -
  let ?h = "hs ! nat (index x)"
  from machines_props [OF assms(1)] assms(2)
  have srt: "sorted_wrt (<) (map index res)"
    and mem: "\<forall>x\<in>set res. 0 \<le> index x \<and> index x < int (length hs) \<and>
              (\<exists>tr. vb_name env tr (hs ! nat (index x)) = Some (name x)) \<and>
              (\<exists>tr. vb_state env tr (hs ! nat (index x)) = Some (state x))"
    by auto
  from mem assms(3) have lo: "0 \<le> index x" and hi: "index x < int (length hs)"
    and nm: "\<exists>tr. vb_name env tr ?h = Some (name x)"
    and st: "\<exists>tr. vb_state env tr ?h = Some (state x)"
    by auto
  have gi: "getitem hs (index x) s' = (Inr ?h, s')"
    using lo hi by (simp add: getitem_def ret_def)
  have tg: "\<forall>s2. vb_machines env (trace s2) = Some hs \<longrightarrow>
               (\<exists>new. trace (snd (shutdown_machine env x s2)) = new @ trace s2 \<and>
                      list_all (targets env ?h) new)
             \<and> (\<exists>new. trace (snd (save_machine env x s2)) = new @ trace s2 \<and>
                      list_all (targets env ?h) new)"
    using shutdown_machine_targets [OF _ lo hi] save_machine_targets [OF _ lo hi]
    by blast
  have re: "(\<exists>rest. trace (snd (shutdown_machine env x (context_after env ops))) =
                  rest @ [GetName ?h, GetMachines] @ trace (context_after env ops))
             \<and> (\<exists>rest. trace (snd (save_machine env x (context_after env ops))) =
                  rest @ [GetName ?h, GetMachines] @ trace (context_after env ops))"
    if "vb_machines env (trace (context_after env ops)) = Some hs" for ops
    using shutdown_machine_resolves [OF context_after_guard that lo hi]
      save_machine_resolves [OF context_after_guard that lo hi]
    by blast
  have lk: "\<exists>rest. trace (snd (shutdown_machine env x (context_after env ops))) =
                       rest @ [GetSessionMachine, LockMachine ?h,
                               GetSessionObject, GetName ?h, GetMachines]
                            @ trace (context_after env ops)"
    if "vb_machines env (trace (context_after env ops)) = Some hs"
      and "(\<forall>tr. vb_name env tr ?h \<noteq> None \<and> vb_name env tr hm \<noteq> None)
                     \<and> (\<forall>tr. vb_command env tr GetSessionObject)
                     \<and> (\<forall>tr. vb_command env tr (LockMachine ?h))
                     \<and> (\<forall>tr. vb_session_machine env tr = Some hm)"
    for ops hm
    using that
    by (intro shutdown_machine_locks [OF context_after_guard _ lo hi, where hm = hm]) simp_all
  have sv: "\<exists>rest. trace (snd (save_machine env x (context_after env ops))) =
                             rest @ [SaveState hm, GetSessionMachine,
                                     LockMachine ?h, GetSessionObject, GetName ?h,
                                     GetState ?h, GetName ?h, GetMachines]
                                  @ trace (context_after env ops)"
    if "vb_machines env (trace (context_after env ops)) = Some hs"
      and "(\<forall>tr. vb_name env tr ?h \<noteq> None \<and> vb_name env tr hm \<noteq> None)
                     \<and> (\<forall>tr. vb_command env tr GetSessionObject)
                     \<and> (\<forall>tr. vb_command env tr (LockMachine ?h))
                     \<and> (\<forall>tr. vb_session_machine env tr = Some hm)"
      and "vb_state env (GetName ?h # GetMachines # trace (context_after env ops)) ?h = Some st0
             \<and> st0 \<notin> set OffMachineStates"
    for ops hm st0
    using that
    by (intro save_machine_saves [OF context_after_guard _ lo hi, where hm = hm and ?st0.0 = st0])
       simp_all
  from lo hi nm st srt gi tg re lk sv show ?thesis by blast
qed

text \<open>
  Claim C9 at an interface with two machines of which the first cannot be read: the only
  surrogate has index \<open>1\<close>, and both operations lock the machine with handle \<open>11\<close>.
\<close>

theorem snapshot_index_is_raw_position_witness:
  "machines vbox_pair VBContext_init =
     (Inr [\<lparr>index = 1, name = ''vm'', state = Running\<rparr>],
      \<lparr>trace = [GetState 11, GetName 11, GetName 10, GetMachines], log = [],
         recursion_guard = 0\<rparr>)
   \<and> (\<exists>new. trace (snd (save_machine vbox_pair \<lparr>index = 1, name = ''vm'', state = Running\<rparr>
                 (context_after vbox_pair [Machines]))) =
           new @ [GetState 11, GetName 11, GetName 10, GetMachines]
         \<and> list_all (targets vbox_pair 11) new)
   \<and> (\<exists>rest. trace (snd (shutdown_machine vbox_pair
                 \<lparr>index = 1, name = ''vm'', state = Running\<rparr>
                 (context_after vbox_pair [Machines]))) =
         rest @ [GetSessionMachine, LockMachine 11, GetSessionObject, GetName 11, GetMachines,
                 GetState 11, GetName 11, GetName 10, GetMachines])
   \<and> (\<exists>rest. trace (snd (save_machine vbox_pair \<lparr>index = 1, name = ''vm'', state = Running\<rparr>
                 (context_after vbox_pair [Machines]))) =
         rest @ [SaveState 21, GetSessionMachine, LockMachine 11, GetSessionObject, GetName 11,
                 GetState 11, GetName 11, GetMachines,
                 GetState 11, GetName 11, GetName 10, GetMachines])"
proof -
  let ?x = "\<lparr>index = 1, name = ''vm'', state = Running\<rparr>"
  let ?s' = "\<lparr>trace = [GetState 11, GetName 11, GetName 10, GetMachines], log = [],
         recursion_guard = 0\<rparr>"
  have a: "vb_machines vbox_pair (trace VBContext_init) = Some [10, 11]"
    by (simp add: vbox_pair_def)
  have b: "machines vbox_pair VBContext_init = (Inr [?x], ?s')"
    by (simp add: machines_def Machine_init_def prog_defs vbox_pair_def VBContext_init_def)
  have c: "?x \<in> set [?x]" by simp
  have t: "trace (context_after vbox_pair [Machines]) =
      [GetState 11, GetName 11, GetName 10, GetMachines]"
    by (simp add: context_after_def b)
  have m: "vb_machines vbox_pair (trace (context_after vbox_pair [Machines])) = Some [10, 11]"
    by (simp add: vbox_pair_def)
  have h: "[10, 11] ! nat (index ?x) = (11::nat)" by simp
  note w = snapshot_index_is_raw_position [OF a b c, unfolded h]
  from w have tg: "\<forall>s2. vb_machines vbox_pair (trace s2) = Some [10, 11] \<longrightarrow>
               (\<exists>new. trace (snd (shutdown_machine vbox_pair ?x s2)) = new @ trace s2 \<and>
                      list_all (targets vbox_pair 11) new)
             \<and> (\<exists>new. trace (snd (save_machine vbox_pair ?x s2)) = new @ trace s2 \<and>
                      list_all (targets vbox_pair 11) new)"
    by blast
  from tg m have 1: "\<exists>new. trace (snd (save_machine vbox_pair ?x
                 (context_after vbox_pair [Machines]))) =
           new @ [GetState 11, GetName 11, GetName 10, GetMachines]
         \<and> list_all (targets vbox_pair 11) new"
    unfolding t [symmetric] by blast
  have coop: "(\<forall>tr. vb_name vbox_pair tr 11 \<noteq> None \<and> vb_name vbox_pair tr 21 \<noteq> None)
                     \<and> (\<forall>tr. vb_command vbox_pair tr GetSessionObject)
                     \<and> (\<forall>tr. vb_command vbox_pair tr (LockMachine 11))
                     \<and> (\<forall>tr. vb_session_machine vbox_pair tr = Some 21)"
    by (simp add: vbox_pair_def)
  have st: "vb_state vbox_pair
              (GetName 11 # GetMachines # trace (context_after vbox_pair [Machines])) 11
              = Some Running \<and> Running \<notin> set OffMachineStates"
    unfolding t by (simp add: vbox_pair_def OffMachineStates_def)
  from w m coop have 2: "\<exists>rest. trace (snd (shutdown_machine vbox_pair ?x
                 (context_after vbox_pair [Machines]))) =
         rest @ [GetSessionMachine, LockMachine 11, GetSessionObject, GetName 11, GetMachines]
              @ trace (context_after vbox_pair [Machines])"
    by blast
  from w m coop st have 3: "\<exists>rest. trace (snd (save_machine vbox_pair ?x
                 (context_after vbox_pair [Machines]))) =
         rest @ [SaveState 21, GetSessionMachine, LockMachine 11, GetSessionObject, GetName 11,
                 GetState 11, GetName 11, GetMachines]
              @ trace (context_after vbox_pair [Machines])"
    by blast
  from b 1 2 3 show ?thesis by (simp add: t)
qed

text \<open>The whole run of \<open>save_machine\<close> at that interface, on a new context.\<close>

lemma save_machine_pair_trace:
  "save_machine vbox_pair \<lparr>index = 1, name = ''vm'', state = Running\<rparr> VBContext_init =
     (Inr (Some True),
      \<lparr>trace = [UnlockMachine, GetState 21, GetState 21, GetName 21, SaveState 21,
                GetSessionMachine, LockMachine 11, GetSessionObject, GetName 11, GetState 11,
                GetName 11, GetMachines],
         log = [(INFO, ''Machine `%s` is in state: %s''), (INFO, ''Saving machine `%s` ... ''),
                (INFO, ''Checking machine `%s` ... '')],
         recursion_guard = 0\<rparr>)"
  by (simp add: save_machine_def guard_defs with_session_def VBSession_init_def
      VBSession_enter_def VBSession_exit_def save_round_def getitem_def prog_defs
      vbox_pair_def VBContext_init_def OffMachineStates_def for_range_20)

subsection \<open>Properties of the controller\<close>

lemmas controller_defs = call_def call_async_def worker_round_def start_def timer_start_def
  timer_stop_def VBCController_init_def

text \<open>
  A method that raises on a live worker makes \<open>call\<close> return whatever \<open>_call_result\<close> held
  before.
\<close>

lemma call_after_fault:
  assumes "enabled c" and "thread c = Some (Alive x)" and "context_method x = (Inl e, x')"
  shows "fst (call spawn context_method c) = Returns (call_result c)"
  using assms by (simp add: controller_defs Let_def)

text \<open>
  When the worker started by \<open>call\<close> ends at once and \<open>_ev_result\<close> is not set, \<open>call\<close> does
  not return.
\<close>

lemma call_without_worker:
  assumes "\<not> enabled c" and "\<not> ev_result c"
  shows "fst (call None context_method c) = BlocksForever"
  using assms by (simp add: controller_defs Let_def)

text \<open>
  Claim C2, evaluated. The first \<open>call(VBContext.machines)\<close> on a fresh controller
  returns the list with one surrogate. The API then refuses to list the machines, so the
  second \<open>call(VBContext.machines)\<close> raises inside the worker: the worker logs the fault
  and does not pass it on, but \<open>_call_result\<close> still holds the first list and \<open>call\<close>
  returns it.
\<close>

theorem call_returns_stale_result_after_fault:
  "fst (call (Some VBContext_init) (machines_method vbox_flaky) VBCController_init)
     = Returns (Some [\<lparr>index = 0, name = ''vm'', state = Running\<rparr>])
   \<and> fst (call (Some VBContext_init) (machines_method vbox_flaky)
          (snd (call (Some VBContext_init) (machines_method vbox_flaky) VBCController_init)))
     = Returns (Some [\<lparr>index = 0, name = ''vm'', state = Running\<rparr>])
   \<and> clog (snd (call (Some VBContext_init) (machines_method vbox_flaky)
          (snd (call (Some VBContext_init) (machines_method vbox_flaky) VBCController_init))))
     = [(ERROR, ''Call to VB context failed: %s'')]"
  by (simp add: controller_defs machines_method_def machines_def Machine_init_def prog_defs
      vbox_flaky_def vbox_const_def VBContext_init_def)

text \<open>
  Claim C8, evaluated. On a fresh controller whose worker thread ends while it builds its
  context, \<open>_call_async\<close> finds the thread not alive and logs the error; \<open>call\<close> then waits
  on \<open>_ev_result\<close>, which was never set and which nobody is left to set.
\<close>

theorem call_blocks_when_worker_never_ran:
  "fst (call None (machines_method (vbox_const Running)) VBCController_init) = BlocksForever
   \<and> clog (snd (call None (machines_method (vbox_const Running)) VBCController_init))
     = [(ERROR, ''VBController thread is not running!'')]"
  by (simp add: controller_defs)

text \<open>
  Claim C6 as stated fails: a fresh controller has no timer, and after one \<open>acquire\<close> and
  one \<open>release\<close> the timer is armed.
\<close>

theorem acquire_release_arms_fresh_timer:
  "stop_timer (VBCController_init :: (VBContext, Machine list) VBCController) = None
   \<and> stop_timer ((release ^^ 1) ((acquire (Some VBContext_init) ^^ 1)
        (VBCController_init :: (VBContext, Machine list) VBCController))) = Some TimerAlive"
  by (simp add: acquire_def release_def controller_defs Let_def)

lemma acquire_step:
  "acquire_cnt (acquire spawn c) = acquire_cnt c + 1 \<and>
   stop_timer (acquire spawn c) \<noteq> Some TimerAlive"
  by (simp add: acquire_def start_def timer_stop_def Let_def)

lemma acquire_many:
  "acquire_cnt ((acquire spawn ^^ k) c) = acquire_cnt c + int k \<and>
   (0 < k \<longrightarrow> stop_timer ((acquire spawn ^^ k) c) \<noteq> Some TimerAlive)"
proof (induction k)
  case 0
  show ?case by simp
next
  case (Suc k)
  then show ?case using acquire_step [of spawn "(acquire spawn ^^ k) c"] by simp
qed

lemma release_held:
  assumes "acquire_cnt c \<noteq> 1"
  shows "acquire_cnt (release c) = acquire_cnt c - 1 \<and> stop_timer (release c) = stop_timer c"
  using assms by (simp add: release_def Let_def)

lemma release_last:
  assumes "acquire_cnt c = 1"
  shows "acquire_cnt (release c) = 0 \<and> stop_timer (release c) = Some TimerAlive"
  using assms by (simp add: release_def timer_start_def timer_stop_def Let_def)

lemma release_many:
  assumes "int j < acquire_cnt c"
  shows "acquire_cnt ((release ^^ j) c) = acquire_cnt c - int j \<and>
         stop_timer ((release ^^ j) c) = stop_timer c"
  using assms
proof (induction j)
  case 0
  show ?case by simp
next
  case (Suc j)
  then have ih: "acquire_cnt ((release ^^ j) c) = acquire_cnt c - int j"
    "stop_timer ((release ^^ j) c) = stop_timer c"
    by simp_all
  from Suc.prems ih have "acquire_cnt ((release ^^ j) c) \<noteq> 1" by simp
  from release_held [OF this] ih show ?case by simp
qed

text \<open>
  Claim C6, amended. For \<open>k \<ge> 1\<close> and a controller whose hold count \<open>acquire_cnt\<close> is not
  negative: after \<open>k\<close> acquires and \<open>k\<close> releases the hold count is what it was, and the
  timer is armed exactly when that count is zero, whether or not it was armed before. The
  timer is not armed after any of the acquires, nor after fewer than \<open>k\<close> of the releases:
  it is armed only by the release that brings the count to zero.
\<close>

theorem acquire_release_rearms:
  assumes "0 < k" and "0 \<le> acquire_cnt c"
  shows "acquire_cnt ((release ^^ k) ((acquire spawn ^^ k) c)) = acquire_cnt c
         \<and> (stop_timer ((release ^^ k) ((acquire spawn ^^ k) c)) = Some TimerAlive
              \<longleftrightarrow> acquire_cnt c = 0)
         \<and> (\<forall>i. 0 < i \<and> i \<le> k \<longrightarrow> stop_timer ((acquire spawn ^^ i) c) \<noteq> Some TimerAlive)
         \<and> (\<forall>j. j < k \<longrightarrow>
               stop_timer ((release ^^ j) ((acquire spawn ^^ k) c)) \<noteq> Some TimerAlive)"
proof -
  let ?a = "(acquire spawn ^^ k) c"
  from acquire_many [where spawn = spawn and k = k and c = c] assms(1)
  have ca: "acquire_cnt ?a = acquire_cnt c + int k" and ta: "stop_timer ?a \<noteq> Some TimerAlive"
    by simp_all
  have during: "stop_timer ((release ^^ j) ?a) \<noteq> Some TimerAlive
      \<and> acquire_cnt ((release ^^ j) ?a) = acquire_cnt c + int k - int j" if "j < k" for j
  proof -
    from that assms(2) ca have "int j < acquire_cnt ?a" by simp
    from release_many [OF this] ta ca show ?thesis by simp
  qed
  from assms(1) obtain k' where k: "k = Suc k'" by (cases k) auto
  let ?b = "(release ^^ k') ?a"
  from during [of k'] k have cb: "acquire_cnt ?b = acquire_cnt c + 1"
    and tb: "stop_timer ?b \<noteq> Some TimerAlive"
    by simp_all
  have fin: "(release ^^ k) ?a = release ?b" by (simp add: k)
  have last: "acquire_cnt (release ?b) = acquire_cnt c \<and>
      (stop_timer (release ?b) = Some TimerAlive \<longleftrightarrow> acquire_cnt c = 0)"
  proof (cases "acquire_cnt c = 0")
    case True
    with cb have "acquire_cnt ?b = 1" by simp
    from release_last [OF this] True show ?thesis by simp
  next
    case False
    with cb have "acquire_cnt ?b \<noteq> 1" by simp
    from release_held [OF this] cb tb False show ?thesis by simp
  qed
  have first: "\<forall>i. 0 < i \<and> i \<le> k \<longrightarrow> stop_timer ((acquire spawn ^^ i) c) \<noteq> Some TimerAlive"
    using acquire_many [where spawn = spawn and c = c] by blast
  from last fin first during show ?thesis by simp
qed

text \<open>
  The amended claim on a fresh controller with \<open>k = 2\<close>.
\<close>

theorem acquire_release_rearms_witness:
  "acquire_cnt ((release ^^ 2) ((acquire (Some VBContext_init) ^^ 2)
       (VBCController_init :: (VBContext, Machine list) VBCController))) = 0
   \<and> stop_timer ((release ^^ 2) ((acquire (Some VBContext_init) ^^ 2)
       (VBCController_init :: (VBContext, Machine list) VBCController))) = Some TimerAlive
   \<and> stop_timer ((release ^^ 1) ((acquire (Some VBContext_init) ^^ 2)
       (VBCController_init :: (VBContext, Machine list) VBCController))) \<noteq> Some TimerAlive"
proof -
  have k: "0 < (2::nat)" by simp
  have c: "0 \<le> acquire_cnt (VBCController_init :: (VBContext, Machine list) VBCController)"
    by (simp add: VBCController_init_def)
  have z: "acquire_cnt (VBCController_init :: (VBContext, Machine list) VBCController) = 0"
    by (simp add: VBCController_init_def)
  have o: "(1::nat) < 2" by simp
  from acquire_release_rearms [OF k c, of "Some VBContext_init"] z o show ?thesis
    by (metis (no_types, lifting))
qed

text \<open>
  Claim C10. On a controller that has no thread object, \<open>stop\<close> only clears \<open>_enabled\<close> and
  \<open>_ev_started\<close> (the \<open>join\<close> is skipped, nothing else changes). Afterwards \<open>_start\<close> creates
  a live worker, and a \<open>call\<close> whose method returns on the new context returns that value
  and leaves the worker alive.
\<close>

theorem stop_before_start:
  assumes "thread c = None"
  shows "stop c = c\<lparr>enabled := False, ev_started := False\<rparr>
         \<and> thread (start (Some x) (stop c)) = Some (Alive x)
         \<and> enabled (start (Some x) (stop c))
         \<and> (\<forall>r x'. context_method x = (Inr r, x') \<longrightarrow>
               fst (call (Some x) context_method (stop c)) = Returns r
               \<and> thread (snd (call (Some x) context_method (stop c))) = Some (Alive x'))"
  using assms
  by (auto simp: stop_def controller_defs Let_def)

text \<open>
  Claim C10 on a fresh controller: \<open>stop\<close> changes nothing, and the next call lists the
  machines.
\<close>

theorem stop_before_start_witness:
  "stop (VBCController_init :: (VBContext, Machine list) VBCController) = VBCController_init
   \<and> fst (call (Some VBContext_init) (machines_method (vbox_const Running))
        (stop VBCController_init))
       = Returns (Some [\<lparr>index = 0, name = ''vm'', state = Running\<rparr>])"
proof -
  have t: "thread (VBCController_init :: (VBContext, Machine list) VBCController) = None"
    by (simp add: VBCController_init_def)
  have m: "machines_method (vbox_const Running) VBContext_init =
      (Inr (Some [\<lparr>index = 0, name = ''vm'', state = Running\<rparr>]),
       \<lparr>trace = [GetState 0, GetName 0, GetMachines], log = [], recursion_guard = 0\<rparr>)"
    by (simp add: machines_method_def machines_def Machine_init_def prog_defs
      vbox_const_def VBContext_init_def)
  note w = stop_before_start [OF t, of VBContext_init "machines_method (vbox_const Running)"]
  from w have "stop (VBCController_init :: (VBContext, Machine list) VBCController) =
      VBCController_init\<lparr>enabled := False, ev_started := False\<rparr>"
    by (rule conjunct1)
  then have 1: "stop (VBCController_init :: (VBContext, Machine list) VBCController) =
      VBCController_init"
    by (simp add: VBCController_init_def)
  from w m have 2: "fst (call (Some VBContext_init) (machines_method (vbox_const Running))
        (stop VBCController_init))
       = Returns (Some [\<lparr>index = 0, name = ''vm'', state = Running\<rparr>])"
    by blast
  from 1 2 show ?thesis by (rule conjI)
qed

end
